(* ===== verification/Prelude.thy ===== *)
theory Prelude
  imports Main "HOL-Library.Word" "HOL-Library.Monad_Syntax" "HOL-Library.List_Lexorder"
    "HOL-Library.Char_ord"
begin

text \<open>
  Shared vocabulary of the development: the machine integers and byte strings of the code, checked
  indexing and slicing (a Rust index or range out of bounds panics, here the value \<open>None\<close>), the
  big-endian conversions, the padding rule of STUN attributes, and the generic interface of an
  encoder with its decoder.
\<close>

unbundle bit_operations_syntax

section \<open>Types\<close>

type_synonym u8 = "8 word"
type_synonym u16 = "16 word"
type_synonym u32 = "32 word"
type_synonym u64 = "64 word"
type_synonym bytes = "8 word list"

text \<open>
  The result of code that may panic and may fail: \<open>None\<close> is a panic, \<open>Some (Inl e)\<close> is
  \<open>Err(e)\<close> and \<open>Some (Inr x)\<close> is \<open>Ok(x)\<close>.
\<close>

type_synonym ('e, 'a) outcome = "('e + 'a) option"

named_theorems access "reads and slices of byte strings whose length is known"
named_theorems layout "lengths and shapes of encoded messages"

section \<open>Checked access\<close>

definition read_u8 :: "bytes \<Rightarrow> nat \<Rightarrow> u8 option" where
  "read_u8 b i = (if i < length b then Some (b ! i) else None)"

definition slice :: "'a list \<Rightarrow> nat \<Rightarrow> nat \<Rightarrow> 'a list option" where
  "slice xs i j = (if i \<le> j \<and> j \<le> length xs then Some (take (j - i) (drop i xs)) else None)"

lemma read_u8_0 [access]: "read_u8 (x # xs) 0 = Some x"
  by (simp add: read_u8_def)

lemma read_u8_Suc [access]: "read_u8 (x # xs) (Suc n) = read_u8 xs n"
  by (simp add: read_u8_def)

lemma read_u8_numeral [access]: "read_u8 (x # xs) (numeral k) = read_u8 xs (pred_numeral k)"
  by (simp add: numeral_eq_Suc read_u8_Suc)

lemma read_u8_append [access]:
  "read_u8 (xs @ ys) i = (if i < length xs then read_u8 xs i else read_u8 ys (i - length xs))"
  by (auto simp: read_u8_def nth_append)

lemma read_u8_some: "i < length b \<Longrightarrow> read_u8 b i = Some (b ! i)"
  by (simp add: read_u8_def)

lemma read_u8_drop: "read_u8 (drop n b) i = read_u8 b (n + i)"
  by (auto simp: read_u8_def less_diff_conv add.commute)

lemma read_u8_take: "i < n \<Longrightarrow> read_u8 (take n b) i = read_u8 b i"
  by (auto simp: read_u8_def)

lemma slice_some: "i \<le> j \<Longrightarrow> j \<le> length xs \<Longrightarrow> slice xs i j = Some (take (j - i) (drop i xs))"
  by (simp add: slice_def)

lemma slice_length: "slice xs i j = Some ys \<Longrightarrow> length ys = j - i"
  by (auto simp: slice_def split: if_splits)

lemma slice_append_right:
  "length xs \<le> i \<Longrightarrow> i \<le> j \<Longrightarrow> slice (xs @ ys) i j = slice ys (i - length xs) (j - length xs)"
  by (auto simp: slice_def)

lemma slice_all: "j = length xs \<Longrightarrow> slice xs 0 j = Some xs"
  by (simp add: slice_def)

section \<open>Big-endian integers\<close>

definition u16_of_be :: "u8 \<Rightarrow> u8 \<Rightarrow> u16" where
  "u16_of_be hi lo = push_bit 8 (ucast hi) OR ucast lo"

definition u32_of_be :: "u8 \<Rightarrow> u8 \<Rightarrow> u8 \<Rightarrow> u8 \<Rightarrow> u32" where
  "u32_of_be a b c d =
     push_bit 24 (ucast a) OR push_bit 16 (ucast b) OR push_bit 8 (ucast c) OR ucast d"

definition be16 :: "u16 \<Rightarrow> bytes" where
  "be16 w = [ucast (drop_bit 8 w), ucast w]"

definition be32 :: "u32 \<Rightarrow> bytes" where
  "be32 w = [ucast (drop_bit 24 w), ucast (drop_bit 16 w), ucast (drop_bit 8 w), ucast w]"

definition read_be16 :: "bytes \<Rightarrow> nat \<Rightarrow> u16 option" where
  "read_be16 b i = do { x \<leftarrow> read_u8 b i; y \<leftarrow> read_u8 b (i + 1); Some (u16_of_be x y) }"

definition read_be32 :: "bytes \<Rightarrow> nat \<Rightarrow> u32 option" where
  "read_be32 b i = do {
     w \<leftarrow> read_u8 b i; x \<leftarrow> read_u8 b (i + 1); y \<leftarrow> read_u8 b (i + 2); z \<leftarrow> read_u8 b (i + 3);
     Some (u32_of_be w x y z) }"

lemma length_be16 [simp]: "length (be16 w) = 2"
  by (simp add: be16_def)

lemma length_be32 [simp]: "length (be32 w) = 4"
  by (simp add: be32_def)

lemma bit_u8_beyond [simp]: "8 \<le> n \<Longrightarrow> \<not> bit (b :: u8) n"
  by (auto dest: bit_imp_le_length)

lemma u16_of_be_be16 [simp]: "u16_of_be (ucast (drop_bit 8 w)) (ucast w) = w"
  by (rule bit_word_eqI) (auto simp: u16_of_be_def bit_simps)

lemma be16_u16_of_be [simp]: "be16 (u16_of_be a b) = [a, b]"
  by (auto simp: be16_def u16_of_be_def bit_simps intro!: bit_word_eqI)

lemma u32_of_be_be32 [simp]:
  "u32_of_be (ucast (drop_bit 24 w)) (ucast (drop_bit 16 w)) (ucast (drop_bit 8 w)) (ucast w) = w"
proof (rule bit_word_eqI)
  fix n
  assume "n < LENGTH(32)"
  then consider "n < 8" | "8 \<le> n" "n < 16" | "16 \<le> n" "n < 24" | "24 \<le> n" "n < 32"
    by force
  then show "bit (u32_of_be (ucast (drop_bit 24 w)) (ucast (drop_bit 16 w)) (ucast (drop_bit 8 w)) (ucast w)) n
    = bit w n"
    by cases (auto simp: u32_of_be_def bit_simps)
qed

lemma be32_u32_of_be [simp]: "be32 (u32_of_be a b c d) = [a, b, c, d]"
  by (auto simp: be32_def u32_of_be_def bit_simps intro!: bit_word_eqI)

lemma be16_inject [simp]: "be16 v = be16 w \<longleftrightarrow> v = w"
proof
  assume "be16 v = be16 w"
  then have "u16_of_be (be16 v ! 0) (be16 v ! 1) = u16_of_be (be16 w ! 0) (be16 w ! 1)" by simp
  then show "v = w" by (simp add: be16_def)
qed simp

lemma be32_inject [simp]: "be32 v = be32 w \<longleftrightarrow> v = w"
proof
  assume "be32 v = be32 w"
  then have "u32_of_be (be32 v ! 0) (be32 v ! 1) (be32 v ! 2) (be32 v ! 3)
    = u32_of_be (be32 w ! 0) (be32 w ! 1) (be32 w ! 2) (be32 w ! 3)" by simp
  then show "v = w" by (simp add: be32_def numeral_2_eq_2 numeral_3_eq_3)
qed simp

lemma read_be16_be16 [access]: "read_be16 (be16 w @ ys) 0 = Some w"
  by (simp add: read_be16_def be16_def access)

lemma read_be32_be32 [access]: "read_be32 (be32 w @ ys) 0 = Some w"
  by (simp add: read_be32_def be32_def access)

lemma read_be16_append_right:
  "length xs \<le> i \<Longrightarrow> read_be16 (xs @ ys) i = read_be16 ys (i - length xs)"
  by (simp add: read_be16_def read_u8_append Suc_diff_le)

lemma read_be32_append_right:
  "length xs \<le> i \<Longrightarrow> read_be32 (xs @ ys) i = read_be32 ys (i - length xs)"
  by (simp add: read_be32_def read_u8_append Suc_diff_le)

lemma read_be16_skip: "read_be16 (x # y # ys) 2 = read_be16 ys 0"
  by (simp add: read_be16_def access)

lemma read_be16_total: "i + 2 \<le> length b \<Longrightarrow> \<exists>w. read_be16 b i = Some w"
  by (simp add: read_be16_def read_u8_def)

lemma read_be32_total: "i + 4 \<le> length b \<Longrightarrow> \<exists>w. read_be32 b i = Some w"
  by (simp add: read_be32_def read_u8_def)

section \<open>Padding to a 4-byte boundary\<close>

definition pad4 :: "nat \<Rightarrow> nat" where
  "pad4 n = (4 - n mod 4) mod 4"

lemma pad4_less: "pad4 n < 4"
  by (simp add: pad4_def)

lemma pad4_aligned: "(n + pad4 n) mod 4 = 0"
proof -
  consider "n mod 4 = 0" | "n mod 4 = 1" | "n mod 4 = 2" | "n mod 4 = 3"
    by linarith
  then show ?thesis
    by cases (simp add: pad4_def, presburger?)+
qed

lemma pad4_multiple [simp]: "n mod 4 = 0 \<Longrightarrow> pad4 n = 0"
  by (simp add: pad4_def)

section \<open>Strings\<close>

text \<open>
  A Rust \<open>String\<close> is its sequence of UTF-8 bytes. HOL's \<open>char\<close> has 256 values, so
  \<open>string\<close> is such a sequence; the two conversions below change the view only.
\<close>

definition as_bytes :: "string \<Rightarrow> bytes" where
  "as_bytes s = map of_char s"

definition string_of_bytes :: "bytes \<Rightarrow> string" where
  "string_of_bytes b = map (\<lambda>x. char_of (unat x)) b"

lemma length_as_bytes [simp]: "length (as_bytes s) = length s"
  by (simp add: as_bytes_def)

lemma unat_of_char [simp]: "unat (of_char c :: u8) = of_char c"
proof -
  have "(of_char c :: u8) = of_nat (of_char c)" by (simp only: of_nat_of_char)
  then show ?thesis by (simp add: unsigned_of_nat take_bit_eq_mod del: of_nat_of_char)
qed

lemma of_char_char_of_u8 [simp]: "(of_char (char_of (unat b)) :: u8) = b" for b :: u8
proof -
  have "(of_char (char_of (unat b)) :: u8) = of_nat (of_char (char_of (unat b)))" by (simp only: of_nat_of_char)
  then show ?thesis using unsigned_less [where 'a = nat, of b] by simp
qed

lemma string_of_as_bytes [simp]: "string_of_bytes (as_bytes s) = s"
  by (simp add: string_of_bytes_def as_bytes_def comp_def)

lemma as_string_of_bytes [simp]: "as_bytes (string_of_bytes b) = b"
  by (simp add: string_of_bytes_def as_bytes_def comp_def)

lemma as_bytes_inject [simp]: "as_bytes s = as_bytes t \<longleftrightarrow> s = t"
  by (metis string_of_as_bytes)

section \<open>The interface of an encoder and its decoder\<close>

text \<open>
  \<open>ok\<close> is the set of values the encoder is meant for. The round trip is the law; what
  clients use is that the encoding identifies the value.
\<close>

locale partial_codec =
  fixes enc :: "'a \<Rightarrow> 'b" and dec :: "'b \<Rightarrow> 'a option" and ok :: "'a \<Rightarrow> bool"
  assumes dec_enc: "ok x \<Longrightarrow> dec (enc x) = Some x"
begin

lemma enc_eq_iff: "ok x \<Longrightarrow> ok y \<Longrightarrow> enc x = enc y \<longleftrightarrow> x = y"
  by (metis dec_enc option.inject)

lemma enc_inj_on: "inj_on enc {x. ok x}"
  by (rule inj_onI) (simp add: enc_eq_iff)

lemma card_enc_image: "\<forall>x \<in> A. ok x \<Longrightarrow> card (enc ` A) = card A"
  by (rule card_image) (auto intro: inj_onI simp: enc_eq_iff)

end

end
