(* ===== verification/NetAddr.thy ===== *)
theory NetAddr
  imports Prelude
begin

text \<open>
  The types of \<open>std::net\<close> the crate is written against: IPv4 addresses as four octets, IPv6
  addresses as eight 16-bit segments, \<open>IpAddr\<close> and \<open>SocketAddr\<close>, with the predicates and
  conversions the source calls and the derived order that \<open>establish\<close> sorts by. A V6 socket
  address keeps its flow information and scope id, because the client compares whole socket
  addresses.
\<close>

section \<open>Addresses\<close>

datatype ipv4_addr = Ipv4 u8 u8 u8 u8

datatype ipv6_addr = Ipv6 u16 u16 u16 u16 u16 u16 u16 u16

datatype ip_addr = IpV4 ipv4_addr | IpV6 ipv6_addr

datatype socket_addr =
    SockV4 ipv4_addr u16
  | SockV6 ipv6_addr u16 (flowinfo: u32) (scope_id: u32)

fun octets4 :: "ipv4_addr \<Rightarrow> bytes" where
  "octets4 (Ipv4 a b c d) = [a, b, c, d]"

fun segments :: "ipv6_addr \<Rightarrow> u16 list" where
  "segments (Ipv6 a b c d e f g h) = [a, b, c, d, e, f, g, h]"

definition octets6 :: "ipv6_addr \<Rightarrow> bytes" where
  "octets6 v = concat (map be16 (segments v))"

text \<open>\<open>Ipv4Addr::from([u8; 4])\<close> and \<open>Ipv6Addr::from([u8; 16])\<close>; \<open>None\<close> on another length,
  which the array types of the source exclude.\<close>

fun ipv4_of_octets :: "bytes \<Rightarrow> ipv4_addr option" where
  "ipv4_of_octets [a, b, c, d] = Some (Ipv4 a b c d)"
| "ipv4_of_octets _ = None"

fun ipv6_of_octets :: "bytes \<Rightarrow> ipv6_addr option" where
  "ipv6_of_octets [a0, a1, b0, b1, c0, c1, d0, d1, e0, e1, f0, f1, g0, g1, h0, h1] =
     Some (Ipv6 (u16_of_be a0 a1) (u16_of_be b0 b1) (u16_of_be c0 c1) (u16_of_be d0 d1)
       (u16_of_be e0 e1) (u16_of_be f0 f1) (u16_of_be g0 g1) (u16_of_be h0 h1))"
| "ipv6_of_octets _ = None"

fun sock_ip :: "socket_addr \<Rightarrow> ip_addr" where
  "sock_ip (SockV4 a p) = IpV4 a"
| "sock_ip (SockV6 a p f s) = IpV6 a"

fun sock_port :: "socket_addr \<Rightarrow> u16" where
  "sock_port (SockV4 a p) = p"
| "sock_port (SockV6 a p f s) = p"

text \<open>\<open>SocketAddr::new\<close>: a V6 address gets flow information and scope id 0.\<close>

fun sock_new :: "ip_addr \<Rightarrow> u16 \<Rightarrow> socket_addr" where
  "sock_new (IpV4 a) p = SockV4 a p"
| "sock_new (IpV6 a) p = SockV6 a p 0 0"

section \<open>Predicates and conversions of the standard library\<close>

text \<open>\<open>Ipv6Addr::to_ipv4\<close>: the mapped \<open>::ffff:a.b.c.d\<close> and the compatible \<open>::a.b.c.d\<close>.\<close>

fun to_ipv4 :: "ipv6_addr \<Rightarrow> ipv4_addr option" where
  "to_ipv4 (Ipv6 a b c d e f g h) =
     (if a = 0 \<and> b = 0 \<and> c = 0 \<and> d = 0 \<and> e = 0 \<and> (f = 0 \<or> f = 0xffff)
      then Some (Ipv4 (ucast (drop_bit 8 g)) (ucast g) (ucast (drop_bit 8 h)) (ucast h))
      else None)"

fun v4_is_unspecified :: "ipv4_addr \<Rightarrow> bool" where
  "v4_is_unspecified (Ipv4 a b c d) \<longleftrightarrow> a = 0 \<and> b = 0 \<and> c = 0 \<and> d = 0"

fun v4_is_loopback :: "ipv4_addr \<Rightarrow> bool" where
  "v4_is_loopback (Ipv4 a b c d) \<longleftrightarrow> a = 127"

fun v4_is_link_local :: "ipv4_addr \<Rightarrow> bool" where
  "v4_is_link_local (Ipv4 a b c d) \<longleftrightarrow> a = 169 \<and> b = 254"

fun v4_is_multicast :: "ipv4_addr \<Rightarrow> bool" where
  "v4_is_multicast (Ipv4 a b c d) \<longleftrightarrow> 224 \<le> a \<and> a \<le> 239"

fun v4_is_broadcast :: "ipv4_addr \<Rightarrow> bool" where
  "v4_is_broadcast (Ipv4 a b c d) \<longleftrightarrow> a = 255 \<and> b = 255 \<and> c = 255 \<and> d = 255"

fun v4_is_documentation :: "ipv4_addr \<Rightarrow> bool" where
  "v4_is_documentation (Ipv4 a b c d) \<longleftrightarrow>
     a = 192 \<and> b = 0 \<and> c = 2 \<or> a = 198 \<and> b = 51 \<and> c = 100 \<or> a = 203 \<and> b = 0 \<and> c = 113"

fun v4_is_private :: "ipv4_addr \<Rightarrow> bool" where
  "v4_is_private (Ipv4 a b c d) \<longleftrightarrow>
     a = 10 \<or> a = 172 \<and> 16 \<le> b \<and> b \<le> 31 \<or> a = 192 \<and> b = 168"

fun v6_is_unspecified :: "ipv6_addr \<Rightarrow> bool" where
  "v6_is_unspecified v \<longleftrightarrow> v = Ipv6 0 0 0 0 0 0 0 0"

fun v6_is_loopback :: "ipv6_addr \<Rightarrow> bool" where
  "v6_is_loopback v \<longleftrightarrow> v = Ipv6 0 0 0 0 0 0 0 1"

fun v6_is_multicast :: "ipv6_addr \<Rightarrow> bool" where
  "v6_is_multicast (Ipv6 a b c d e f g h) \<longleftrightarrow> a AND 0xff00 = 0xff00"

section \<open>The derived order\<close>

text \<open>
  \<open>Ipv4Addr\<close> compares its octets and \<open>Ipv6Addr\<close> its segments, lexicographically; \<open>IpAddr\<close>
  derives its order, so every V4 address comes before every V6 address.
\<close>

lemma octets4_inject [simp]: "octets4 a = octets4 b \<longleftrightarrow> a = b"
  by (cases a; cases b) simp

lemma segments_inject [simp]: "segments a = segments b \<longleftrightarrow> a = b"
  by (cases a; cases b) simp

instantiation ipv4_addr :: linorder
begin

definition less_eq_ipv4_addr :: "ipv4_addr \<Rightarrow> ipv4_addr \<Rightarrow> bool" where
  "less_eq_ipv4_addr a b \<longleftrightarrow> octets4 a \<le> octets4 b"

definition less_ipv4_addr :: "ipv4_addr \<Rightarrow> ipv4_addr \<Rightarrow> bool" where
  "less_ipv4_addr a b \<longleftrightarrow> octets4 a < octets4 b"

instance
  by standard (auto simp: less_eq_ipv4_addr_def less_ipv4_addr_def less_le_not_le)

end

instantiation ipv6_addr :: linorder
begin

definition less_eq_ipv6_addr :: "ipv6_addr \<Rightarrow> ipv6_addr \<Rightarrow> bool" where
  "less_eq_ipv6_addr a b \<longleftrightarrow> segments a \<le> segments b"

definition less_ipv6_addr :: "ipv6_addr \<Rightarrow> ipv6_addr \<Rightarrow> bool" where
  "less_ipv6_addr a b \<longleftrightarrow> segments a < segments b"

instance
  by standard (auto simp: less_eq_ipv6_addr_def less_ipv6_addr_def less_le_not_le)

end

instantiation ip_addr :: linorder
begin

fun less_eq_ip_addr :: "ip_addr \<Rightarrow> ip_addr \<Rightarrow> bool" where
  "less_eq_ip_addr (IpV4 a) (IpV4 b) \<longleftrightarrow> a \<le> b"
| "less_eq_ip_addr (IpV4 a) (IpV6 b) \<longleftrightarrow> True"
| "less_eq_ip_addr (IpV6 a) (IpV4 b) \<longleftrightarrow> False"
| "less_eq_ip_addr (IpV6 a) (IpV6 b) \<longleftrightarrow> a \<le> b"

definition less_ip_addr :: "ip_addr \<Rightarrow> ip_addr \<Rightarrow> bool" where
  "less_ip_addr a b \<longleftrightarrow> a \<le> b \<and> \<not> b \<le> a"

instance
proof
  fix x y z :: ip_addr
  show "x < y \<longleftrightarrow> x \<le> y \<and> \<not> y \<le> x" by (simp add: less_ip_addr_def)
  show "x \<le> x" by (cases x) simp_all
  show "x \<le> y \<Longrightarrow> y \<le> z \<Longrightarrow> x \<le> z" by (cases x; cases y; cases z) auto
  show "x \<le> y \<Longrightarrow> y \<le> x \<Longrightarrow> x = y" by (cases x; cases y) auto
  show "x \<le> y \<or> y \<le> x" by (cases x; cases y) auto
qed

end

section \<open>Facts\<close>

lemma length_octets4 [simp]: "length (octets4 v) = 4"
  by (cases v) simp

lemma length_segments [simp]: "length (segments v) = 8"
  by (cases v) simp

lemma length_octets6 [simp]: "length (octets6 v) = 16"
  by (cases v) (simp add: octets6_def)

lemma octets6_simps: "octets6 (Ipv6 a b c d e f g h) =
  be16 a @ be16 b @ be16 c @ be16 d @ be16 e @ be16 f @ be16 g @ be16 h"
  by (simp add: octets6_def)

lemma ipv4_of_octets_octets4 [simp]: "ipv4_of_octets (octets4 v) = Some v"
  by (cases v) simp

lemma ipv6_of_octets_octets6 [simp]: "ipv6_of_octets (octets6 v) = Some v"
  by (cases v) (simp add: octets6_simps be16_def)

lemma ipv4_of_octets_eq: "length b = 4 \<Longrightarrow> ipv4_of_octets b = Some (Ipv4 (b ! 0) (b ! 1) (b ! 2) (b ! 3))"
  by (auto simp: length_Suc_conv numeral_eq_Suc)

lemma ipv6_of_octets_eq: "length b = 16 \<Longrightarrow> ipv6_of_octets b = Some (the (ipv6_of_octets b))"
  by (auto simp: length_Suc_conv numeral_eq_Suc)

lemma ipv4_of_octets_total: "length b = 4 \<Longrightarrow> \<exists>v. ipv4_of_octets b = Some v \<and> octets4 v = b"
  by (auto simp: length_Suc_conv numeral_eq_Suc)

lemma ipv6_of_octets_total: "length b = 16 \<Longrightarrow> \<exists>v. ipv6_of_octets b = Some v \<and> octets6 v = b"
  by (auto simp: length_Suc_conv numeral_eq_Suc octets6_simps)

lemma octets6_inject [simp]: "octets6 a = octets6 b \<longleftrightarrow> a = b"
  by (metis ipv6_of_octets_octets6 option.inject)

lemma sock_ip_new [simp]: "sock_ip (sock_new ip p) = ip"
  by (cases ip) simp_all

lemma sock_port_new [simp]: "sock_port (sock_new ip p) = p"
  by (cases ip) simp_all

lemma sock_new_inject [simp]: "sock_new ip p = sock_new ip' p' \<longleftrightarrow> ip = ip' \<and> p = p'"
  by (metis sock_ip_new sock_port_new)

end
