(* ===== verification/Scope.thy ===== *)
theory Scope
  imports NetAddr
begin

text \<open>
  The address-scope classifier, \<open>src/scope.rs\<close>: the fold of IPv4-in-IPv6 addresses, the two
  range tables, and the two predicates derived from them. The tables are also stated as lists of
  CIDR blocks, the form SPEC.md section 5.3 gives them, and shown to classify alike.
\<close>

section \<open>The code\<close>

datatype scope = NeverDialable | PrivateScope | GlobalUnicast

fun fold_ip :: "ip_addr \<Rightarrow> ip_addr" where
  "fold_ip (IpV4 v4) = IpV4 v4"
| "fold_ip (IpV6 v6) = (case to_ipv4 v6 of Some v4 \<Rightarrow> IpV4 v4 | None \<Rightarrow> IpV6 v6)"

fun scope_of_v4 :: "ipv4_addr \<Rightarrow> scope" where
  "scope_of_v4 (Ipv4 a b c d) =
     (let v4 = Ipv4 a b c d;
          is_this_network = a = 0;
          is_ietf_protocol_assignment = a = 192 \<and> b = 0 \<and> c = 0;
          is_6to4_relay_anycast = a = 192 \<and> b = 88 \<and> c = 99;
          is_benchmarking = a = 198 \<and> b AND 0xfe = 18;
          is_reserved_class_e = 240 \<le> a;
          is_carrier_grade_nat = a = 100 \<and> 64 \<le> b \<and> b < 128
      in if v4_is_unspecified v4 \<or> v4_is_loopback v4 \<or> v4_is_link_local v4 \<or> v4_is_multicast v4
            \<or> v4_is_broadcast v4 \<or> v4_is_documentation v4 \<or> is_this_network
            \<or> is_ietf_protocol_assignment \<or> is_6to4_relay_anycast \<or> is_benchmarking
            \<or> is_reserved_class_e
         then NeverDialable
         else if v4_is_private v4 \<or> is_carrier_grade_nat then PrivateScope
         else GlobalUnicast)"

fun scope_of_v6 :: "ipv6_addr \<Rightarrow> scope" where
  "scope_of_v6 (Ipv6 s0 s1 s2 s3 s4 s5 s6 s7) =
     (let v6 = Ipv6 s0 s1 s2 s3 s4 s5 s6 s7;
          is_link_local = s0 AND 0xffc0 = 0xfe80;
          is_documentation = s0 = 0x2001 \<and> s1 = 0x0db8;
          is_benchmarking = s0 = 0x2001 \<and> s1 = 0x0002 \<and> s2 = 0;
          is_discard_only = s0 = 0x0100 \<and> s1 = 0 \<and> s2 = 0 \<and> s3 = 0;
          is_unique_local = s0 AND 0xfe00 = 0xfc00
      in if v6_is_unspecified v6 \<or> v6_is_loopback v6 \<or> v6_is_multicast v6 \<or> is_link_local
            \<or> is_documentation \<or> is_benchmarking \<or> is_discard_only
         then NeverDialable
         else if is_unique_local then PrivateScope
         else GlobalUnicast)"

definition scope_of_ip :: "ip_addr \<Rightarrow> scope" where
  "scope_of_ip ip = (case fold_ip ip of IpV4 v4 \<Rightarrow> scope_of_v4 v4 | IpV6 v6 \<Rightarrow> scope_of_v6 v6)"

definition scope_of :: "socket_addr \<Rightarrow> scope" where
  "scope_of addr = (if sock_port addr = 0 then NeverDialable else scope_of_ip (sock_ip addr))"

definition is_usable_reflexive_addr :: "socket_addr \<Rightarrow> bool" where
  "is_usable_reflexive_addr addr \<longleftrightarrow> scope_of addr \<noteq> NeverDialable"

definition is_globally_routable :: "socket_addr \<Rightarrow> bool" where
  "is_globally_routable addr \<longleftrightarrow> scope_of addr = GlobalUnicast"

section \<open>The interface the other components rely on\<close>

text \<open>
  The client, the observer and the agreement rule ask two questions of an address: what it folds to
  and how dialable it is. They rely on the fold being idempotent and on the classification not
  distinguishing an address from its fold.
\<close>

locale scope_table =
  fixes fold :: "ip_addr \<Rightarrow> ip_addr" and classify :: "ip_addr \<Rightarrow> scope"
  assumes fold_idem: "fold (fold ip) = fold ip"
    and classify_fold: "classify (fold ip) = classify ip"
    and fold_native4: "fold (IpV4 a) = IpV4 a"
begin

lemma classify_cong: "fold ip = fold ip' \<Longrightarrow> classify ip = classify ip'"
  by (metis classify_fold)

lemma folded_v6_fixed: "fold ip = IpV6 v \<Longrightarrow> fold (IpV6 v) = IpV6 v"
  by (metis fold_idem)

end

lemma fold_ip_idem: "fold_ip (fold_ip ip) = fold_ip ip"
  by (cases ip) (auto split: option.splits)

interpretation st: scope_table fold_ip scope_of_ip
  by unfold_locales (auto simp: scope_of_ip_def fold_ip_idem)

declare fold_ip_idem [simp]

section \<open>The table of SPEC.md section 5.3\<close>

text \<open>
  A CIDR block is the list of octets (IPv4) or segments (IPv6) of its base address and a prefix
  length; an address is in the block when the leading bits agree. The blocks below are written from
  the specification's table, not from the code.
\<close>

fun prefix_eq :: "nat \<Rightarrow> 'a::len word list \<Rightarrow> 'a word list \<Rightarrow> bool" where
  "prefix_eq n (x # xs) (y # ys) =
     (if n = 0 then True
      else if LENGTH('a) \<le> n then x = y \<and> prefix_eq (n - LENGTH('a)) xs ys
      else drop_bit (LENGTH('a) - n) x = drop_bit (LENGTH('a) - n) y)"
| "prefix_eq n _ _ = True"

definition v4_never_blocks :: "(u8 list \<times> nat) list" where
  "v4_never_blocks =
     [([0, 0, 0, 0], 8), ([127, 0, 0, 0], 8), ([169, 254, 0, 0], 16), ([192, 0, 0, 0], 24),
      ([192, 0, 2, 0], 24), ([198, 51, 100, 0], 24), ([203, 0, 113, 0], 24), ([192, 88, 99, 0], 24),
      ([198, 18, 0, 0], 15), ([224, 0, 0, 0], 4), ([240, 0, 0, 0], 4)]"

definition v4_private_blocks :: "(u8 list \<times> nat) list" where
  "v4_private_blocks =
     [([10, 0, 0, 0], 8), ([172, 16, 0, 0], 12), ([192, 168, 0, 0], 16), ([100, 64, 0, 0], 10)]"

definition v6_never_blocks :: "(u16 list \<times> nat) list" where
  "v6_never_blocks =
     [([0, 0, 0, 0, 0, 0, 0, 0], 128), ([0, 0, 0, 0, 0, 0, 0, 1], 128),
      ([0xfe80, 0, 0, 0, 0, 0, 0, 0], 10), ([0xff00, 0, 0, 0, 0, 0, 0, 0], 8),
      ([0x2001, 0x0db8, 0, 0, 0, 0, 0, 0], 32), ([0x2001, 2, 0, 0, 0, 0, 0, 0], 48),
      ([0x0100, 0, 0, 0, 0, 0, 0, 0], 64)]"

definition v6_private_blocks :: "(u16 list \<times> nat) list" where
  "v6_private_blocks = [([0xfc00, 0, 0, 0, 0, 0, 0, 0], 7)]"

definition table_scope ::
  "('a::len word list \<times> nat) list \<Rightarrow> ('a word list \<times> nat) list \<Rightarrow> 'a word list \<Rightarrow> scope" where
  "table_scope never priv ws =
     (if list_ex (\<lambda>(base, n). prefix_eq n ws base) never then NeverDialable
      else if list_ex (\<lambda>(base, n). prefix_eq n ws base) priv then PrivateScope
      else GlobalUnicast)"

lemma u8_ranges:
  fixes b :: u8
  shows "224 \<le> b \<and> b \<le> 239 \<longleftrightarrow> drop_bit 4 b = 14"
    and "240 \<le> b \<longleftrightarrow> drop_bit 4 b = 15"
    and "64 \<le> b \<and> b < 128 \<longleftrightarrow> drop_bit 6 b = 1"
    and "16 \<le> b \<and> b \<le> 31 \<longleftrightarrow> drop_bit 4 b = 1"
  using unsigned_less [of b, where 'a = nat]
  by (simp_all add: word_le_nat_alt word_less_nat_alt word_unat_eq_iff drop_bit_eq_div unat_div)
    arith+

lemma and_not_mask_eq: "w AND NOT (mask n) = push_bit n (drop_bit n w)" for w :: "'a::len word"
  by (rule bit_word_eqI) (auto simp: bit_simps)

lemma masked_eq_iff:
  fixes w v m :: "'a::len word"
  assumes m: "m = NOT (mask n)" and v: "v AND m = v"
  shows "w AND m = v \<longleftrightarrow> drop_bit n w = drop_bit n v"
proof
  assume "w AND m = v"
  then have "drop_bit n v = drop_bit n (w AND NOT (mask n))" by (simp add: m)
  also have "\<dots> = drop_bit n w"
    by (rule bit_word_eqI) (auto simp: bit_simps dest: bit_imp_le_length)
  finally show "drop_bit n w = drop_bit n v" ..
next
  assume "drop_bit n w = drop_bit n v"
  then have "w AND m = v AND m" by (simp only: m and_not_mask_eq)
  with v show "w AND m = v" by simp
qed

lemma masks:
  fixes b :: u8 and s :: u16
  shows "b AND 0xfe = 18 \<longleftrightarrow> drop_bit 1 b = 9"
    and "s AND 0xff00 = 0xff00 \<longleftrightarrow> drop_bit 8 s = 0xff"
    and "s AND 0xffc0 = 0xfe80 \<longleftrightarrow> drop_bit 6 s = 0x3fa"
    and "s AND 0xfe00 = 0xfc00 \<longleftrightarrow> drop_bit 9 s = 0x7e"
  using masked_eq_iff [where m = "0xfe :: u8" and n = 1 and v = "18" and w = b]
    masked_eq_iff [where m = "0xff00 :: u16" and n = 8 and v = "0xff00" and w = s]
    masked_eq_iff [where m = "0xffc0 :: u16" and n = 6 and v = "0xfe80" and w = s]
    masked_eq_iff [where m = "0xfe00 :: u16" and n = 9 and v = "0xfc00" and w = s]
  by (simp_all add: mask_numeral)

lemma scope_of_v4_table: "scope_of_v4 v = table_scope v4_never_blocks v4_private_blocks (octets4 v)"
proof (cases v)
  case (Ipv4 a b c d)
  show ?thesis
    by (auto simp: Ipv4 table_scope_def v4_never_blocks_def v4_private_blocks_def u8_ranges masks Let_def)
qed

lemma scope_of_v6_table: "scope_of_v6 v = table_scope v6_never_blocks v6_private_blocks (segments v)"
proof (cases v)
  case (Ipv6 a b c d e f g h)
  show ?thesis
    by (auto simp: Ipv6 table_scope_def v6_never_blocks_def v6_private_blocks_def masks Let_def)
qed

section \<open>Properties\<close>

text \<open>C28: the classifier is exactly the table of SPEC.md section 5.3. For every address, after the
  IPv4-in-IPv6 fold, the masks and comparisons of \<open>scope_of_v4\<close> and \<open>scope_of_v6\<close> give the
  same scope as a first-match lookup in the specification's CIDR blocks (11 never-dialable and 4
  private IPv4 blocks, 7 and 1 for IPv6): no row is missed, widened or shadowed.\<close>
theorem scope_of_ip_table:
  "scope_of_ip ip =
     (case fold_ip ip of
        IpV4 v4 \<Rightarrow> table_scope v4_never_blocks v4_private_blocks (octets4 v4)
      | IpV6 v6 \<Rightarrow> table_scope v6_never_blocks v6_private_blocks (segments v6))"
  by (simp add: scope_of_ip_def scope_of_v4_table scope_of_v6_table split: ip_addr.split)

lemma to_ipv4_mapped [simp]:
  "to_ipv4 (Ipv6 0 0 0 0 0 f (u16_of_be a b) (u16_of_be c d)) = Some (Ipv4 a b c d)"
  if "f = 0 \<or> f = 0xffff"
proof -
  have "ucast (drop_bit 8 (u16_of_be x y)) = x \<and> (ucast (u16_of_be x y) :: u8) = y" for x y :: u8
    using be16_u16_of_be [of x y] by (simp add: be16_def)
  with that show ?thesis by auto
qed

text \<open>No IPv4 range can be smuggled past the classifier inside an IPv6 address. The mapped form
  \<open>::ffff:a.b.c.d\<close> and the compatible form \<open>::a.b.c.d\<close> classify, for every port, exactly
  as the IPv4 address they embed, in both derived predicates.\<close>
theorem embedded_ipv4_classified_as_ipv4:
  assumes "f = 0 \<or> f = 0xffff"
  shows "scope_of (sock_new (IpV6 (Ipv6 0 0 0 0 0 f (u16_of_be a b) (u16_of_be c d))) p)
       = scope_of (sock_new (IpV4 (Ipv4 a b c d)) p)"
proof -
  have "fold_ip (IpV6 (Ipv6 0 0 0 0 0 f (u16_of_be a b) (u16_of_be c d))) = fold_ip (IpV4 (Ipv4 a b c d))"
    using assms by (simp del: to_ipv4.simps)
  then show ?thesis by (simp add: scope_of_def st.classify_cong)
qed

theorem embedded_ipv4_classified_as_ipv4_witness:
  "scope_of (sock_new (IpV6 (Ipv6 0 0 0 0 0 0xffff (u16_of_be 127 0) (u16_of_be 0 1))) 9444) = NeverDialable"
proof -
  have "scope_of (sock_new (IpV4 (Ipv4 127 0 0 1)) 9444) = NeverDialable"
    by (simp add: scope_of_def scope_of_ip_def)
  then show ?thesis
    using embedded_ipv4_classified_as_ipv4 [of "0xffff" 127 0 0 1 9444] by simp
qed

lemma usable_folded:
  "is_usable_reflexive_addr (sock_new (fold_ip (sock_ip a)) (sock_port a)) = is_usable_reflexive_addr a"
  by (simp add: is_usable_reflexive_addr_def scope_of_def st.classify_fold)

lemma globally_routable_usable: "is_globally_routable a \<Longrightarrow> is_usable_reflexive_addr a"
  by (simp add: is_globally_routable_def is_usable_reflexive_addr_def)

end
