(* ===== verification/Tlv.thy ===== *)
theory Tlv
  imports Prelude
begin

text \<open>
  The STUN framing every message of the crate shares: the 20-byte header and the padded
  type-length-value attributes (\<open>write_header\<close> and \<open>write_attr\<close> of
  \<open>src/credential/wire.rs\<close>), a reference decomposition of an attribute area, and the contract
  of an attribute-walking loop. The crate walks attributes in three places; each loop meets this
  contract and inherits, from here, that it never panics and that it computes what folding its
  handler over the decomposed area computes.
\<close>

section \<open>Transaction ids and the header\<close>

text \<open>\<open>TransactionId\<close> is \<open>[u8; 12]\<close>; \<open>try_into\<close> from a slice succeeds on 12 bytes.\<close>

typedef transaction_id = "{b :: bytes. length b = 12}"
  morphisms txid_bytes Txid
  by (rule exI [of _ "replicate 12 0"]) simp

lemma length_txid_bytes [simp]: "length (txid_bytes t) = 12"
  using txid_bytes [of t] by simp

lemma txid_bytes_Txid [simp]: "length b = 12 \<Longrightarrow> txid_bytes (Txid b) = b"
  by (simp add: Txid_inverse)

lemma txid_bytes_eq_iff [simp]: "txid_bytes s = txid_bytes t \<longleftrightarrow> s = t"
  by (simp add: txid_bytes_inject)

declare txid_bytes_inverse [simp]

definition txid_of_slice :: "bytes \<Rightarrow> transaction_id option" where
  "txid_of_slice b = (if length b = 12 then Some (Txid b) else None)"

lemma txid_of_slice_bytes [simp]: "txid_of_slice (txid_bytes t) = Some t"
  by (simp add: txid_of_slice_def)

section \<open>The writers of wire.rs\<close>

definition MAGIC_COOKIE :: u32 where
  "MAGIC_COOKIE = 0x2112A442"

definition write_attr :: "bytes \<Rightarrow> u16 \<Rightarrow> bytes \<Rightarrow> bytes" where
  "write_attr msg attr_type value =
     (let msg = msg @ be16 attr_type;
          msg = msg @ be16 (of_nat (length value));
          msg = msg @ value;
          pad = (4 - length value mod 4) mod 4
      in msg @ replicate pad 0)"

definition write_header :: "bytes \<Rightarrow> u16 \<Rightarrow> u16 \<Rightarrow> transaction_id \<Rightarrow> bytes" where
  "write_header msg msg_type attrs_len txid =
     msg @ be16 msg_type @ be16 attrs_len @ be32 MAGIC_COOKIE @ txid_bytes txid"

text \<open>
  Any message of at least 20 bytes is a header with some type, length, cookie and id, followed by
  the rest; the reads every parser makes on it are these.
\<close>

definition header :: "u16 \<Rightarrow> u16 \<Rightarrow> u32 \<Rightarrow> transaction_id \<Rightarrow> bytes" where
  "header ty len ck t = be16 ty @ be16 len @ be32 ck @ txid_bytes t"

lemma write_header_eq: "write_header msg ty len t = msg @ header ty len MAGIC_COOKIE t"
  by (simp add: write_header_def header_def)

lemma length_header [simp]: "length (header ty len ck t) = 20"
  by (simp add: header_def)

lemma header_inject [simp]:
  "header ty len ck t = header ty' len' ck' t' \<longleftrightarrow> ty = ty' \<and> len = len' \<and> ck = ck' \<and> t = t'"
  by (auto simp: header_def)

lemma header_reads [access]:
  "read_be16 (header ty len ck t @ rest) 0 = Some ty"
  "read_be16 (header ty len ck t @ rest) 2 = Some len"
  "read_be32 (header ty len ck t @ rest) 4 = Some ck"
  "slice (header ty len ck t @ rest) 8 20 = Some (txid_bytes t)"
proof -
  show "read_be16 (header ty len ck t @ rest) 0 = Some ty"
    by (simp add: header_def read_be16_be16)
  show "read_be16 (header ty len ck t @ rest) 2 = Some len"
    by (simp add: header_def read_be16_append_right read_be16_be16)
  show "read_be32 (header ty len ck t @ rest) 4 = Some ck"
    by (simp add: header_def read_be32_append_right read_be32_be32)
  show "slice (header ty len ck t @ rest) 8 20 = Some (txid_bytes t)"
    by (simp add: header_def slice_def)
qed

lemma header_slice_rest [access]:
  "20 \<le> j \<Longrightarrow> slice (header ty len ck t @ rest) 20 j = slice rest 0 (j - 20)"
  by (simp add: slice_append_right)

lemma length_8_conv:
  "length xs = 8 \<longleftrightarrow> (\<exists>b0 b1 b2 b3 b4 b5 b6 b7. xs = [b0, b1, b2, b3, b4, b5, b6, b7])"
  by (auto simp: length_Suc_conv eval_nat_numeral)

lemma header_split:
  assumes "20 \<le> length msg"
  obtains ty len ck t rest where "msg = header ty len ck t @ rest"
proof -
  have "msg = take 8 msg @ take 12 (drop 8 msg) @ drop 12 (drop 8 msg)"
    by (simp only: append_take_drop_id)
  then have "msg = take 8 msg @ take 12 (drop 8 msg) @ drop 20 msg"
    by simp
  moreover obtain b0 b1 b2 b3 b4 b5 b6 b7 where "take 8 msg = [b0, b1, b2, b3, b4, b5, b6, b7]"
    using length_8_conv [of "take 8 msg"] assms by auto
  moreover have "take 12 (drop 8 msg) = txid_bytes (Txid (take 12 (drop 8 msg)))"
    using assms by simp
  ultimately have "msg = header (u16_of_be b0 b1) (u16_of_be b2 b3) (u32_of_be b4 b5 b6 b7)
      (Txid (take 12 (drop 8 msg))) @ drop 20 msg"
    by (simp add: header_def)
  then show ?thesis by (rule that)
qed

section \<open>The reference decomposition\<close>

text \<open>
  An attribute area is a sequence of attributes, ended by fewer than four bytes, or by an attribute
  whose declared length overruns the area (\<open>Overrun\<close>).
\<close>

datatype tlv = Attr u16 bytes | Overrun

function (sequential) tlvs :: "bytes \<Rightarrow> tlv list" where
  "tlvs (a # b # c # d # rest) =
     (let len = unat (u16_of_be c d)
      in if length rest < len then [Overrun]
         else Attr (u16_of_be a b) (take len rest) # tlvs (drop (len + pad4 len) rest))"
| "tlvs _ = []"
  by pat_completeness auto
termination
  by (relation "measure length") auto

declare tlvs.simps [simp del]

lemma tlvs_short: "length area < 4 \<Longrightarrow> tlvs area = []"
  by (cases area rule: tlvs.cases) (auto simp: tlvs.simps)

lemma tlvs_attr:
  assumes "4 \<le> length area" and "read_be16 area 0 = Some ty" and "read_be16 area 2 = Some n"
  shows "tlvs area =
    (if length area < 4 + unat n then [Overrun]
     else Attr ty (take (unat n) (drop 4 area)) # tlvs (drop (4 + unat n + pad4 (unat n)) area))"
proof -
  from assms(1) obtain a b c d rest where area: "area = a # b # c # d # rest"
    by (auto simp: numeral_eq_Suc Suc_le_length_iff)
  with assms have "ty = u16_of_be a b" "n = u16_of_be c d"
    by (simp_all add: read_be16_def access)
  moreover have "drop (4 + k) area = drop k rest" for k
    by (simp add: area eval_nat_numeral)
  from this [of 0] this [of "unat n + pad4 (unat n)"]
  have "drop 4 area = rest"
    and "drop (4 + unat n + pad4 (unat n)) area = drop (unat n + pad4 (unat n)) rest"
    by (simp_all add: add.assoc)
  ultimately show ?thesis by (simp add: tlvs.simps Let_def) (simp add: area tlvs.simps Let_def)
qed

text \<open>What the writers produce decomposes to what was written.\<close>

lemma length_write_attr [layout]:
  "length (write_attr msg t v) = length msg + 4 + length v + pad4 (length v)"
  by (simp add: write_attr_def pad4_def)

lemma write_attr_append: "write_attr msg t v = msg @ write_attr [] t v"
  by (simp add: write_attr_def Let_def)

lemma tlvs_write_attr:
  assumes "length v < 2 ^ 16"
  shows "tlvs (write_attr [] t v @ rest) = Attr t v # tlvs rest"
proof -
  have "take_bit 16 (length v) = length v"
    using assms by (simp add: take_bit_nat_eq_self)
  then have "unat (of_nat (length v) :: u16) = length v"
    by (simp add: unsigned_of_nat)
  then show ?thesis
    by (subst tlvs_attr [where ty = t and n = "of_nat (length v)"])
      (simp_all add: write_attr_def pad4_def read_be16_append_right access)
qed

section \<open>The contract of an attribute loop\<close>

text \<open>
  A loop over \<open>buf[off..end]\<close> with a state. Each turn may first return early (\<open>pre\<close>), then
  reads type and length, stops with \<open>overrun\<close> when the value would pass the end, and otherwise
  lets \<open>on_attr\<close> return or continue with a new state; \<open>finish\<close> is the code after the loop.
\<close>

primrec tlv_run ::
  "('s \<Rightarrow> 'r option) \<Rightarrow> (u16 \<Rightarrow> bytes \<Rightarrow> 's \<Rightarrow> 'r option + 's) \<Rightarrow> ('s \<Rightarrow> 'r option) \<Rightarrow> ('s \<Rightarrow> 'r option)
   \<Rightarrow> tlv list \<Rightarrow> 's \<Rightarrow> 'r option" where
  "tlv_run pre on_attr overrun finish [] s = finish s"
| "tlv_run pre on_attr overrun finish (x # xs) s =
     (case pre s of
        Some r \<Rightarrow> Some r
      | None \<Rightarrow>
          (case x of
             Overrun \<Rightarrow> overrun s
           | Attr t v \<Rightarrow>
               (case on_attr t v s of
                  Inl r \<Rightarrow> r
                | Inr s' \<Rightarrow> tlv_run pre on_attr overrun finish xs s')))"

locale tlv_loop =
  fixes walk :: "bytes \<Rightarrow> nat \<Rightarrow> nat \<Rightarrow> 's \<Rightarrow> 'r option"
    and pre :: "'s \<Rightarrow> 'r option"
    and on_attr :: "u16 \<Rightarrow> bytes \<Rightarrow> 's \<Rightarrow> 'r option + 's"
    and overrun :: "'s \<Rightarrow> 'r option"
    and finish :: "'s \<Rightarrow> 'r option"
  assumes walk_unfold:
    "walk buf end off s =
       (if off + 4 \<le> end then
          (case pre s of
             Some r \<Rightarrow> Some r
           | None \<Rightarrow> do {
               ty \<leftarrow> read_be16 buf off;
               len \<leftarrow> read_be16 buf (off + 2);
               if end < off + 4 + unat len then overrun s
               else do {
                 v \<leftarrow> slice buf (off + 4) (off + 4 + unat len);
                 (case on_attr ty v s of
                    Inl r \<Rightarrow> r
                  | Inr s' \<Rightarrow> walk buf end (off + 4 + unat len + pad4 (unat len)) s') } })
        else finish s)"
    and on_attr_total: "on_attr t v s = Inl r \<Longrightarrow> \<exists>x. r = Some x"
    and overrun_total: "\<exists>x. overrun s = Some x"
    and finish_total: "\<exists>x. finish s = Some x"
begin

lemma tlv_run_total: "\<exists>x. tlv_run pre on_attr overrun finish xs s = Some x"
  by (induction xs arbitrary: s)
    (auto simp: finish_total overrun_total dest: on_attr_total split: option.split tlv.split sum.split)

lemma walk_eq_run:
  "end \<le> length buf \<Longrightarrow>
   walk buf end off s = tlv_run pre on_attr overrun finish (tlvs (take (end - off) (drop off buf))) s"
proof (induction "end - off" arbitrary: off s rule: less_induct)
  case less
  let ?area = "take (end - off) (drop off buf)"
  show ?case
  proof (cases "off + 4 \<le> end")
    case False
    then show ?thesis by (subst walk_unfold) (simp add: tlvs_short)
  next
    case True
    then obtain ty len where ty: "read_be16 buf off = Some ty" and len: "read_be16 buf (off + 2) = Some len"
      using less.prems read_be16_total [of off buf] read_be16_total [of "off + 2" buf] by auto
    let ?n = "unat len"
    have "read_be16 ?area 0 = Some ty" and "read_be16 ?area 2 = Some len"
      using True ty len by (simp_all add: read_be16_def read_u8_take read_u8_drop add.commute add.left_commute)
    then have area: "tlvs ?area =
      (if end - off < 4 + ?n then [Overrun]
       else Attr ty (take ?n (drop 4 ?area)) # tlvs (drop (4 + ?n + pad4 ?n) ?area))"
      using True less.prems by (subst tlvs_attr [where ty = ty and n = len]) (auto simp: min_def)
    show ?thesis
    proof (cases "end < off + 4 + ?n")
      case overrun: True
      with True ty len area show ?thesis
        by (subst walk_unfold) (auto split: option.split)
    next
      case False
      define nx where "nx = off + 4 + ?n + pad4 ?n"
      have "slice buf (off + 4) (off + 4 + ?n) = Some (take ?n (drop 4 ?area))"
        using False less.prems by (simp add: slice_def drop_take min_def add.commute)
      moreover have "drop (4 + ?n + pad4 ?n) ?area = take (end - nx) (drop nx buf)"
        by (simp add: drop_take nx_def add.commute add.left_commute)
      moreover have "walk buf end nx s' =
          tlv_run pre on_attr overrun finish (tlvs (take (end - nx) (drop nx buf))) s'" for s'
        using less True by (auto simp: nx_def)
      ultimately show ?thesis
        using True False ty len area
        by (subst walk_unfold) (auto simp: nx_def split: option.split sum.split)
    qed
  qed
qed

lemma walk_total: "end \<le> length buf \<Longrightarrow> \<exists>x. walk buf end off s = Some x"
  by (simp only: walk_eq_run tlv_run_total)

end

end
