(* ===== verification/Codec.thy ===== *)
theory Codec
  imports Scope Tlv
begin

text \<open>
  The RFC 5389 Binding codec, \<open>src/codec.rs\<close>: both encoders, both parsers and the decoder of a
  (XOR-)MAPPED-ADDRESS value. The attribute walk of \<open>parse_binding_response\<close> is shown to be an
  instance of the attribute-loop contract, which makes the parser panic-free and equal to a fold
  over the decomposed attribute area.
\<close>

section \<open>Constants and errors\<close>

definition BINDING_REQUEST :: u16 where "BINDING_REQUEST = 0x0001"

definition BINDING_SUCCESS :: u16 where "BINDING_SUCCESS = 0x0101"

definition ATTR_XOR_MAPPED_ADDRESS :: u16 where "ATTR_XOR_MAPPED_ADDRESS = 0x0020"

definition ATTR_MAPPED_ADDRESS :: u16 where "ATTR_MAPPED_ADDRESS = 0x0001"

definition FAMILY_IPV4 :: u8 where "FAMILY_IPV4 = 0x01"

definition FAMILY_IPV6 :: u8 where "FAMILY_IPV6 = 0x02"

lemmas codec_consts = MAGIC_COOKIE_def BINDING_REQUEST_def BINDING_SUCCESS_def
  ATTR_XOR_MAPPED_ADDRESS_def ATTR_MAPPED_ADDRESS_def FAMILY_IPV4_def FAMILY_IPV6_def

datatype stun_error =
    Truncated
  | BadMagicCookie
  | TransactionIdMismatch
  | NoMappedAddress
  | UnexpectedType u16
  | Io string
  | Timeout

section \<open>The encoders\<close>

definition encode_binding_request :: "transaction_id \<Rightarrow> bytes" where
  "encode_binding_request txid =
     (let msg = [];
          msg = msg @ be16 BINDING_REQUEST;
          msg = msg @ be16 0;
          msg = msg @ be32 MAGIC_COOKIE
      in msg @ txid_bytes txid)"

definition xor_port_key :: u16 where
  "xor_port_key = ucast (drop_bit 16 MAGIC_COOKIE)"

definition xor_bytes :: "bytes \<Rightarrow> bytes \<Rightarrow> bytes" where
  "xor_bytes os ks = map2 (\<lambda>x k. x XOR k) os ks"

definition encode_binding_success :: "transaction_id \<Rightarrow> socket_addr \<Rightarrow> bytes" where
  "encode_binding_success txid reflexive =
     (let folded = sock_new (fold_ip (sock_ip reflexive)) (sock_port reflexive);
          cookie_be = be32 MAGIC_COOKIE;
          xor_port = sock_port folded XOR xor_port_key;
          value = [0] @
            (case sock_ip folded of
               IpV4 v4 \<Rightarrow> [FAMILY_IPV4] @ be16 xor_port @ xor_bytes (octets4 v4) cookie_be
             | IpV6 v6 \<Rightarrow>
                 [FAMILY_IPV6] @ be16 xor_port @ xor_bytes (octets6 v6) (cookie_be @ txid_bytes txid));
          attr = be16 ATTR_XOR_MAPPED_ADDRESS @ be16 (of_nat (length value)) @ value
      in be16 BINDING_SUCCESS @ be16 (of_nat (length attr)) @ cookie_be @ txid_bytes txid @ attr)"

section \<open>The parsers\<close>

definition decode_mapped_address ::
  "bytes \<Rightarrow> transaction_id \<Rightarrow> bool \<Rightarrow> (stun_error, socket_addr) outcome" where
  "decode_mapped_address value txid is_xor =
     (if length value < 4 then Some (Inl Truncated)
      else do {
        family \<leftarrow> read_u8 value 1;
        raw_port \<leftarrow> read_be16 value 2;
        let cookie_be = be32 MAGIC_COOKIE;
        let port = (if is_xor then raw_port XOR xor_port_key else raw_port);
        if family = FAMILY_IPV4 then
          (if length value < 8 then Some (Inl Truncated)
           else do {
             octets \<leftarrow> slice value 4 8;
             let octets = (if is_xor then xor_bytes octets cookie_be else octets);
             v4 \<leftarrow> ipv4_of_octets octets;
             Some (Inr (sock_new (IpV4 v4) port)) })
        else if family = FAMILY_IPV6 then
          (if length value < 20 then Some (Inl Truncated)
           else do {
             octets \<leftarrow> slice value 4 20;
             let octets = (if is_xor then xor_bytes octets (cookie_be @ txid_bytes txid) else octets);
             v6 \<leftarrow> ipv6_of_octets octets;
             Some (Inr (sock_new (IpV6 v6) port)) })
        else Some (Inl (UnexpectedType (ucast family))) })"

text \<open>The \<open>while\<close> loop of \<open>parse_binding_response\<close>, from offset \<open>off\<close> up to \<open>end\<close>.\<close>

function response_loop ::
  "bytes \<Rightarrow> transaction_id \<Rightarrow> nat \<Rightarrow> nat \<Rightarrow> socket_addr option \<Rightarrow> (stun_error, socket_addr) outcome" where
  "response_loop msg txid end off fallback =
     (if off + 4 \<le> end then do {
        attr_type \<leftarrow> read_be16 msg off;
        attr_len \<leftarrow> map_option unat (read_be16 msg (off + 2));
        let val_start = off + 4;
        let val_end = val_start + attr_len;
        if end < val_end then Some (Inl Truncated)
        else do {
          value \<leftarrow> slice msg val_start val_end;
          if attr_type = ATTR_XOR_MAPPED_ADDRESS then decode_mapped_address value txid True
          else do {
            fallback \<leftarrow>
              (if attr_type = ATTR_MAPPED_ADDRESS \<and> fallback = None
               then map_option (case_sum (\<lambda>_. None) Some) (decode_mapped_address value txid False)
               else Some fallback);
            response_loop msg txid end (val_end + (4 - attr_len mod 4) mod 4) fallback } } }
      else Some (case fallback of Some a \<Rightarrow> Inr a | None \<Rightarrow> Inl NoMappedAddress))"
  by pat_completeness auto
termination
  by (relation "measure (\<lambda>(msg, txid, end, off, fallback). end - off)") auto

declare response_loop.simps [simp del]

definition parse_binding_response ::
  "bytes \<Rightarrow> transaction_id option \<Rightarrow> (stun_error, socket_addr) outcome" where
  "parse_binding_response msg expected_txid =
     (if length msg < 20 then Some (Inl Truncated)
      else do {
        msg_type \<leftarrow> read_be16 msg 0;
        msg_len \<leftarrow> map_option unat (read_be16 msg 2);
        cookie \<leftarrow> read_be32 msg 4;
        if cookie \<noteq> MAGIC_COOKIE then Some (Inl BadMagicCookie)
        else if msg_type \<noteq> BINDING_SUCCESS then Some (Inl (UnexpectedType msg_type))
        else do {
          id_bytes \<leftarrow> slice msg 8 20;
          case txid_of_slice id_bytes of
            None \<Rightarrow> Some (Inl Truncated)
          | Some txid \<Rightarrow>
              if (case expected_txid of Some expected \<Rightarrow> txid \<noteq> expected | None \<Rightarrow> False)
              then Some (Inl TransactionIdMismatch)
              else if length msg < 20 + msg_len then Some (Inl Truncated)
              else response_loop msg txid (20 + msg_len) 20 None } })"

definition parse_binding_request :: "bytes \<Rightarrow> (stun_error, transaction_id) outcome" where
  "parse_binding_request datagram =
     (if length datagram < 20 then Some (Inl Truncated)
      else do {
        msg_type \<leftarrow> read_be16 datagram 0;
        msg_len \<leftarrow> map_option unat (read_be16 datagram 2);
        cookie \<leftarrow> read_be32 datagram 4;
        if cookie \<noteq> MAGIC_COOKIE then Some (Inl BadMagicCookie)
        else if msg_type \<noteq> BINDING_REQUEST then Some (Inl (UnexpectedType msg_type))
        else if length datagram < 20 + msg_len then Some (Inl Truncated)
        else do {
          id_bytes \<leftarrow> slice datagram 8 20;
          txid \<leftarrow> txid_of_slice id_bytes;
          Some (Inr txid) } })"

section \<open>The parsers never panic\<close>

lemma length_xor_bytes [simp]: "length (xor_bytes xs ys) = min (length xs) (length ys)"
  by (simp add: xor_bytes_def)

lemma xor_bytes_cancel [simp]: "length xs \<le> length ks \<Longrightarrow> xor_bytes (xor_bytes xs ks) ks = xs"
  by (induction xs ks rule: list_induct2') (auto simp: xor_bytes_def xor.assoc)

lemma decode_mapped_address_total: "\<exists>r. decode_mapped_address value txid b = Some r"
proof -
  have v4: "length o4 = 4 \<Longrightarrow> \<exists>r. (ipv4_of_octets o4 \<bind> (\<lambda>v. Some (f v))) = Some r"
    for o4 and f :: "ipv4_addr \<Rightarrow> stun_error + socket_addr"
    by (simp add: ipv4_of_octets_eq)
  have v6: "length o6 = 16 \<Longrightarrow> \<exists>r. (ipv6_of_octets o6 \<bind> (\<lambda>v. Some (f v))) = Some r"
    for o6 and f :: "ipv6_addr \<Rightarrow> stun_error + socket_addr"
    by (subst ipv6_of_octets_eq) simp_all
  show ?thesis
  proof (cases "length value < 4")
    case False
    then obtain f p where "read_u8 value 1 = Some f" "read_be16 value 2 = Some p"
      using read_be16_total [of 2 "value"] by (auto simp: read_u8_def)
    with False show ?thesis
      by (auto simp: decode_mapped_address_def Let_def slice_some intro!: v4 v6)
  qed (simp add: decode_mapped_address_def)
qed

text \<open>One turn of the loop, and the code after it, as the contract wants them.\<close>

definition response_attr ::
  "transaction_id \<Rightarrow> u16 \<Rightarrow> bytes \<Rightarrow> socket_addr option
   \<Rightarrow> (stun_error, socket_addr) outcome + socket_addr option" where
  "response_attr txid t v fallback =
     (if t = ATTR_XOR_MAPPED_ADDRESS then Inl (decode_mapped_address v txid True)
      else if t = ATTR_MAPPED_ADDRESS \<and> fallback = None then
        (case decode_mapped_address v txid False of
           None \<Rightarrow> Inl None | Some r \<Rightarrow> Inr (case_sum (\<lambda>_. None) Some r))
      else Inr fallback)"

definition response_result :: "socket_addr option \<Rightarrow> (stun_error, socket_addr) outcome" where
  "response_result fallback = Some (case fallback of Some a \<Rightarrow> Inr a | None \<Rightarrow> Inl NoMappedAddress)"

interpretation resp: tlv_loop "\<lambda>buf. response_loop buf txid" "\<lambda>_. None" "response_attr txid"
  "\<lambda>_. Some (Inl Truncated)" response_result for txid
proof
  fix buf "end" off and s :: "socket_addr option"
  show "response_loop buf txid end off s =
    (if off + 4 \<le> end then
       (case None of
          Some r \<Rightarrow> Some r
        | None \<Rightarrow> do {
            ty \<leftarrow> read_be16 buf off;
            len \<leftarrow> read_be16 buf (off + 2);
            if end < off + 4 + unat len then Some (Inl Truncated)
            else do {
              v \<leftarrow> slice buf (off + 4) (off + 4 + unat len);
              (case response_attr txid ty v s of
                 Inl r \<Rightarrow> r
               | Inr s' \<Rightarrow> response_loop buf txid end (off + 4 + unat len + pad4 (unat len)) s') } })
     else response_result s)"
    by (subst response_loop.simps)
      (auto simp: response_attr_def response_result_def pad4_def Let_def Option.bind_map_option comp_def
        intro!: Option.bind_cong split: option.split)
next
  fix t v s r
  obtain x y where "decode_mapped_address v txid True = Some x" "decode_mapped_address v txid False = Some y"
    using decode_mapped_address_total by blast
  then show "response_attr txid t v s = Inl r \<Longrightarrow> \<exists>x. r = Some x"
    by (auto simp: response_attr_def split: if_splits intro: sym)
qed (auto simp: response_result_def)

section \<open>The parsers on a header and its attributes\<close>

definition run_response ::
  "transaction_id \<Rightarrow> tlv list \<Rightarrow> socket_addr option \<Rightarrow> (stun_error, socket_addr) outcome" where
  "run_response txid = tlv_run (\<lambda>_. None) (response_attr txid) (\<lambda>_. Some (Inl Truncated)) response_result"

lemma parse_response_short: "length msg < 20 \<Longrightarrow> parse_binding_response msg e = Some (Inl Truncated)"
  by (simp add: parse_binding_response_def)

lemma parse_request_short: "length msg < 20 \<Longrightarrow> parse_binding_request msg = Some (Inl Truncated)"
  by (simp add: parse_binding_request_def)

lemma parse_response_header:
  "parse_binding_response (header ty len ck t @ rest) e =
     (if ck \<noteq> MAGIC_COOKIE then Some (Inl BadMagicCookie)
      else if ty \<noteq> BINDING_SUCCESS then Some (Inl (UnexpectedType ty))
      else if e \<noteq> None \<and> e \<noteq> Some t then Some (Inl TransactionIdMismatch)
      else if length rest < unat len then Some (Inl Truncated)
      else run_response t (tlvs (take (unat len) rest)) None)"
  by (auto simp: parse_binding_response_def run_response_def header_reads resp.walk_eq_run
      split: option.split)

lemma parse_request_header:
  "parse_binding_request (header ty len ck t @ rest) =
     (if ck \<noteq> MAGIC_COOKIE then Some (Inl BadMagicCookie)
      else if ty \<noteq> BINDING_REQUEST then Some (Inl (UnexpectedType ty))
      else if length rest < unat len then Some (Inl Truncated)
      else Some (Inr t))"
  by (auto simp: parse_binding_request_def header_reads)

lemma run_response_total: "\<exists>r. run_response txid xs s = Some r"
  unfolding run_response_def by (rule resp.tlv_run_total)

section \<open>The encoders as a header and one attribute\<close>

lemma encode_request_header: "encode_binding_request t = header BINDING_REQUEST 0 MAGIC_COOKIE t"
  by (simp add: encode_binding_request_def header_def)

definition xor_mapped_value :: "transaction_id \<Rightarrow> ip_addr \<Rightarrow> u16 \<Rightarrow> bytes" where
  "xor_mapped_value t ip port =
     0 # (case ip of
            IpV4 v4 \<Rightarrow> FAMILY_IPV4 # be16 (port XOR xor_port_key) @ xor_bytes (octets4 v4) (be32 MAGIC_COOKIE)
          | IpV6 v6 \<Rightarrow> FAMILY_IPV6 # be16 (port XOR xor_port_key)
              @ xor_bytes (octets6 v6) (be32 MAGIC_COOKIE @ txid_bytes t))"

lemma length_xor_mapped_value [layout]:
  "length (xor_mapped_value t ip port) = (case ip of IpV4 _ \<Rightarrow> 8 | IpV6 _ \<Rightarrow> 20)"
  by (simp add: xor_mapped_value_def split: ip_addr.split)

lemma encode_success_header:
  "encode_binding_success t a =
     (let attr = write_attr [] ATTR_XOR_MAPPED_ADDRESS (xor_mapped_value t (fold_ip (sock_ip a)) (sock_port a))
      in header BINDING_SUCCESS (of_nat (length attr)) MAGIC_COOKIE t @ attr)"
  by (cases "fold_ip (sock_ip a)")
    (simp_all add: encode_binding_success_def write_attr_def header_def xor_mapped_value_def Let_def)

lemma decode_xor_mapped_value:
  "decode_mapped_address (xor_mapped_value t ip port) t True = Some (Inr (sock_new ip port))"
  by (cases ip)
    (simp_all add: decode_mapped_address_def xor_mapped_value_def codec_consts Let_def slice_def
      read_u8_def read_be16_skip read_be16_be16 xor.assoc)

section \<open>What the attribute walk selects\<close>

text \<open>
  The declarative reading of SPEC.md section 2.4 steps 6 and 7: the first XOR-MAPPED-ADDRESS of the
  area decides; without one an overrunning attribute is an error; without that the first
  MAPPED-ADDRESS that decodes is the answer.
\<close>

fun xor_value :: "tlv \<Rightarrow> bytes option" where
  "xor_value (Attr t v) = (if t = ATTR_XOR_MAPPED_ADDRESS then Some v else None)"
| "xor_value Overrun = None"

fun mapped_answer :: "transaction_id \<Rightarrow> tlv \<Rightarrow> socket_addr option" where
  "mapped_answer txid (Attr t v) =
     (if t = ATTR_MAPPED_ADDRESS
      then (case decode_mapped_address v txid False of Some (Inr a) \<Rightarrow> Some a | _ \<Rightarrow> None)
      else None)"
| "mapped_answer txid Overrun = None"

definition response_select ::
  "transaction_id \<Rightarrow> tlv list \<Rightarrow> socket_addr list \<Rightarrow> (stun_error, socket_addr) outcome" where
  "response_select txid attrs found =
     (case List.map_filter xor_value attrs of
        v # _ \<Rightarrow> decode_mapped_address v txid True
      | [] \<Rightarrow>
          if Overrun \<in> set attrs then Some (Inl Truncated)
          else (case found @ List.map_filter (mapped_answer txid) attrs of
                  a # _ \<Rightarrow> Some (Inr a)
                | [] \<Rightarrow> Some (Inl NoMappedAddress)))"

lemma overrun_last: "Overrun \<notin> set (butlast (tlvs area))"
proof (induction area rule: tlvs.induct)
  case (1 a b c d rest)
  then show ?case
    by (auto simp: tlvs.simps Let_def)
qed (simp_all add: tlvs.simps)

lemma run_response_eq_select:
  "Overrun \<notin> set (butlast attrs) \<Longrightarrow>
   run_response txid attrs fallback = response_select txid attrs (case fallback of None \<Rightarrow> [] | Some a \<Rightarrow> [a])"
proof (induction attrs arbitrary: fallback)
  case Nil
  then show ?case
    by (simp add: run_response_def response_select_def response_result_def split: option.split)
next
  case (Cons x attrs)
  show ?case
  proof (cases x)
    case Overrun
    with Cons.prems have "attrs = []" by (cases attrs) auto
    with Overrun show ?thesis
      by (simp add: run_response_def response_select_def)
  next
    case (Attr t v)
    obtain r where r: "decode_mapped_address v txid False = Some r"
      using decode_mapped_address_total by blast
    have "Overrun \<notin> set (butlast attrs)" using Cons.prems by (auto split: if_splits)
    note IH = Cons.IH [OF this, unfolded run_response_def response_select_def]
    show ?thesis
      using r by (auto simp: Attr run_response_def response_select_def response_attr_def IH codec_consts
          split: option.split sum.split list.split)
  qed
qed

section \<open>Properties\<close>

lemma parse_response_total: "\<exists>r. parse_binding_response msg expected = Some r"
proof (cases "length msg < 20")
  case True
  then show ?thesis by (simp add: parse_response_short)
next
  case False
  then obtain ty len ck t rest where "msg = header ty len ck t @ rest"
    by (meson header_split not_less)
  then show ?thesis
    using run_response_total [of t "tlvs (take (unat len) rest)" None] by (auto simp: parse_response_header)
qed

text \<open>The response parser never panics. On every byte string whatsoever, with or without an
  expected transaction id, it returns \<open>Ok\<close> or \<open>Err\<close>: no index, slice or conversion in it is
  out of bounds, although the declared lengths are the sender's.\<close>
theorem parse_binding_response_never_panics: "parse_binding_response msg expected \<noteq> None"
  using parse_response_total [of msg expected] by auto

text \<open>C19: what the response parser returns, completely. A message is either shorter than 20 bytes,
  and then \<open>Truncated\<close>, or it is a header and a rest; the checks are then made in the documented
  order (cookie, type, transaction id, declared length) with the documented errors, and past them
  the answer is the first XOR-MAPPED-ADDRESS, else \<open>Truncated\<close> on an overrunning attribute, else
  the first MAPPED-ADDRESS that decodes, else \<open>NoMappedAddress\<close>.\<close>
theorem parse_binding_response_spec:
  "length msg < 20 \<and> parse_binding_response msg e = Some (Inl Truncated) \<or>
   (\<exists>ty len ck t rest. msg = header ty len ck t @ rest \<and>
      parse_binding_response msg e =
        (if ck \<noteq> MAGIC_COOKIE then Some (Inl BadMagicCookie)
         else if ty \<noteq> BINDING_SUCCESS then Some (Inl (UnexpectedType ty))
         else if e \<noteq> None \<and> e \<noteq> Some t then Some (Inl TransactionIdMismatch)
         else if length rest < unat len then Some (Inl Truncated)
         else response_select t (tlvs (take (unat len) rest)) []))"
proof (cases "length msg < 20")
  case True
  then show ?thesis by (simp add: parse_response_short)
next
  case False
  then obtain ty len ck t rest where "msg = header ty len ck t @ rest"
    by (meson header_split not_less)
  then show ?thesis
    by (auto simp: parse_response_header run_response_eq_select overrun_last)
qed

text \<open>The request parser accepts exactly the Binding requests. It returns \<open>Ok(id)\<close> on a
  datagram if and only if the datagram is a header of type \<open>BINDING_REQUEST\<close> with the magic cookie
  and that id, followed by at least as many bytes as the header declares; it never panics.\<close>
theorem parse_binding_request_iff:
  "parse_binding_request d \<noteq> None \<and>
   (parse_binding_request d = Some (Inr t) \<longleftrightarrow>
     (\<exists>len rest. d = header BINDING_REQUEST len MAGIC_COOKIE t @ rest \<and> unat len \<le> length rest))"
proof (cases "length d < 20")
  case True
  then show ?thesis by (auto simp: parse_request_short)
next
  case False
  then obtain ty len ck u rest where d: "d = header ty len ck u @ rest"
    by (meson header_split not_less)
  show ?thesis
    by (auto simp: d parse_request_header)
qed

lemma success_attr_length:
  "length (write_attr [] ATTR_XOR_MAPPED_ADDRESS (xor_mapped_value t ip port))
     = (case ip of IpV4 _ \<Rightarrow> 12 | IpV6 _ \<Rightarrow> 24)"
  by (simp add: layout split: ip_addr.split)

lemma parse_encode_success:
  "parse_binding_response (encode_binding_success t a) (Some t)
     = Some (Inr (sock_new (fold_ip (sock_ip a)) (sock_port a)))"
proof -
  let ?v = "xor_mapped_value t (fold_ip (sock_ip a)) (sock_port a)"
  let ?attr = "write_attr [] ATTR_XOR_MAPPED_ADDRESS ?v"
  have len: "unat (of_nat (length ?attr) :: u16) = length ?attr"
    by (simp add: success_attr_length split: ip_addr.split)
  have "tlvs ?attr = [Attr ATTR_XOR_MAPPED_ADDRESS ?v]"
    using tlvs_write_attr [of ?v ATTR_XOR_MAPPED_ADDRESS "[]"]
    by (simp add: layout tlvs_short split: ip_addr.split)
  then show ?thesis
    by (simp add: encode_success_header Let_def parse_response_header len run_response_def
        response_attr_def decode_xor_mapped_value)
qed

text \<open>C20: the round-trip law, for every transaction id and every socket address whatsoever. Parsing
  an encoded success response with the same id gives the address with its IP folded, its port
  unchanged and, for IPv6, flow information and scope id 0; so it gives back the very same socket
  address exactly when that address is already of this form.\<close>
theorem encode_binding_success_roundtrip:
  "parse_binding_response (encode_binding_success t a) (Some t)
     = Some (Inr (sock_new (fold_ip (sock_ip a)) (sock_port a)))
   \<and> (parse_binding_response (encode_binding_success t a) (Some t) = Some (Inr a)
       \<longleftrightarrow> fold_ip (sock_ip a) = sock_ip a \<and> (case a of SockV4 _ _ \<Rightarrow> True | SockV6 _ _ f s \<Rightarrow> f = 0 \<and> s = 0))"
  by (cases a) (auto simp: parse_encode_success split: option.splits)

text \<open>The law SPEC.md section 2.7 and the doc comment state, for every \<open>SocketAddr\<close> whose IP
  is native, does not hold as written: a native link-local address with a scope id comes back
  without it.\<close>
theorem roundtrip_loses_scope_id:
  "fold_ip (IpV6 (Ipv6 0xfe80 0 0 0 0 0 0 1)) = IpV6 (Ipv6 0xfe80 0 0 0 0 0 0 1) \<and>
   parse_binding_response (encode_binding_success t (SockV6 (Ipv6 0xfe80 0 0 0 0 0 0 1) 443 0 3)) (Some t)
     = Some (Inr (SockV6 (Ipv6 0xfe80 0 0 0 0 0 0 1) 443 0 0))"
  by (simp add: parse_encode_success)

text \<open>A success response is exactly one header and one attribute: 32 bytes with family \<open>0x01\<close>
  when the address folds to IPv4 (so a mapped or compatible IPv6 address is never sent as a 16-byte
  value), 44 bytes with family \<open>0x02\<close> otherwise.\<close>
theorem encode_binding_success_shape:
  "case fold_ip (sock_ip a) of
     IpV4 _ \<Rightarrow> length (encode_binding_success t a) = 32 \<and> encode_binding_success t a ! 25 = FAMILY_IPV4
   | IpV6 _ \<Rightarrow> length (encode_binding_success t a) = 44 \<and> encode_binding_success t a ! 25 = FAMILY_IPV6"
  by (simp add: encode_success_header Let_def success_attr_length nth_append write_attr_def be16_def
      xor_mapped_value_def split: ip_addr.split)

section \<open>The codec interfaces\<close>

interpretation request_codec: partial_codec encode_binding_request
  "\<lambda>d. case parse_binding_request d of Some (Inr t) \<Rightarrow> Some t | _ \<Rightarrow> None" "\<lambda>_. True"
  using parse_request_header [of _ _ _ _ "[]"] by unfold_locales (simp add: encode_request_header)

interpretation success_codec: partial_codec "encode_binding_success t"
  "\<lambda>d. case parse_binding_response d (Some t) of Some (Inr a) \<Rightarrow> Some a | _ \<Rightarrow> None"
  "\<lambda>a. sock_new (fold_ip (sock_ip a)) (sock_port a) = a" for t
  by unfold_locales (simp add: parse_encode_success)

text \<open>The golden vectors of SPEC.md sections 2.3 and 2.7.\<close>

lemma golden_vectors:
  "txid_bytes t = [0, 1, 2, 3, 4, 5, 6, 7, 8, 9, 10, 11] \<Longrightarrow>
   encode_binding_request t =
     [0, 1, 0, 0, 0x21, 0x12, 0xa4, 0x42, 0, 1, 2, 3, 4, 5, 6, 7, 8, 9, 10, 11] \<and>
   encode_binding_success t (SockV4 (Ipv4 1 1 1 1) 9444) =
     [1, 1, 0, 12, 0x21, 0x12, 0xa4, 0x42, 0, 1, 2, 3, 4, 5, 6, 7, 8, 9, 10, 11,
      0, 0x20, 0, 8, 0, 1, 5, 0xf6, 0x20, 0x13, 0xa5, 0x43]"
  by (simp add: encode_binding_request_def encode_binding_success_def codec_consts be16_def be32_def
      xor_port_key_def xor_bytes_def Let_def)

end
