(* ===== verification/Wire.thy ===== *)
theory Wire
  imports Codec
begin

text \<open>
  The wire plumbing of the credential, \<open>src/credential/wire.rs\<close>: attribute types, limits and error
  codes, the two shape checks, and the hand-written base64url codec with its round trip. The two
  attribute writers of the same file are in the theory Tlv.
\<close>

section \<open>Constants and errors\<close>

definition ATTR_DIG_IDENTITY :: u16 where "ATTR_DIG_IDENTITY = 0xD160"
definition ATTR_DIG_SIGNATURE :: u16 where "ATTR_DIG_SIGNATURE = 0xD161"
definition ATTR_ERROR_CODE :: u16 where "ATTR_ERROR_CODE = 0x0009"
definition ATTR_REALM :: u16 where "ATTR_REALM = 0x0014"
definition ATTR_NONCE :: u16 where "ATTR_NONCE = 0x0015"
definition BINDING_ERROR :: u16 where "BINDING_ERROR = 0x0111"
definition REALM :: string where "REALM = ''dig-stun''"
definition CREDENTIAL_VERSION :: u8 where "CREDENTIAL_VERSION = 0x01"

definition P256_SPKI_LEN :: nat where "P256_SPKI_LEN = 91"

definition P256_SPKI_PREFIX :: bytes where
  "P256_SPKI_PREFIX =
     [0x30, 0x59, 0x30, 0x13, 0x06, 0x07, 0x2a, 0x86, 0x48, 0xce, 0x3d, 0x02, 0x01, 0x06, 0x08, 0x2a,
      0x86, 0x48, 0xce, 0x3d, 0x03, 0x01, 0x07, 0x03, 0x42, 0x00]"

definition MAX_SIGNATURE_LEN :: nat where "MAX_SIGNATURE_LEN = 72"
definition MIN_SIGNATURE_ATTR_LEN :: nat where "MIN_SIGNATURE_ATTR_LEN = 9"

definition ERR_BAD_REQUEST :: u16 where "ERR_BAD_REQUEST = 400"
definition ERR_UNAUTHENTICATED :: u16 where "ERR_UNAUTHENTICATED = 401"
definition ERR_STALE_NONCE :: u16 where "ERR_STALE_NONCE = 438"

lemmas wire_consts = ATTR_DIG_IDENTITY_def ATTR_DIG_SIGNATURE_def ATTR_ERROR_CODE_def ATTR_REALM_def
  ATTR_NONCE_def BINDING_ERROR_def CREDENTIAL_VERSION_def P256_SPKI_LEN_def MAX_SIGNATURE_LEN_def
  MIN_SIGNATURE_ATTR_LEN_def ERR_BAD_REQUEST_def ERR_UNAUTHENTICATED_def ERR_STALE_NONCE_def

datatype credential_error =
    Stun stun_error
  | Malformed
  | BadSignature

section \<open>The shape checks\<close>

text \<open>The conjunction is evaluated left to right, so the slice and the index are reached on 91 bytes.\<close>

definition is_valid_spki_der :: "bytes \<Rightarrow> bool" where
  "is_valid_spki_der spki \<longleftrightarrow>
     length spki = P256_SPKI_LEN \<and> take 26 spki = P256_SPKI_PREFIX \<and> spki ! 26 = 0x04"

definition is_valid_signature_der_len :: "bytes \<Rightarrow> bool" where
  "is_valid_signature_der_len sig_der \<longleftrightarrow>
     (let attr_len = length sig_der + 1
      in MIN_SIGNATURE_ATTR_LEN \<le> attr_len \<and> attr_len \<le> 1 + MAX_SIGNATURE_LEN)"

lemma spki_length: "is_valid_spki_der spki \<Longrightarrow> length spki = 91"
  by (simp add: is_valid_spki_der_def P256_SPKI_LEN_def)

text \<open>A key of the shape the code accepts, for the concrete instances of the development.\<close>

definition example_spki :: bytes where
  "example_spki = P256_SPKI_PREFIX @ 0x04 # replicate 64 7"

lemma example_spki_valid [simp]: "is_valid_spki_der example_spki"
  by (simp add: is_valid_spki_der_def example_spki_def P256_SPKI_LEN_def P256_SPKI_PREFIX_def)

section \<open>base64url\<close>

definition B64URL_ALPHABET :: string where
  "B64URL_ALPHABET = ''ABCDEFGHIJKLMNOPQRSTUVWXYZabcdefghijklmnopqrstuvwxyz0123456789-_''"

fun chunks :: "nat \<Rightarrow> 'a list \<Rightarrow> 'a list list" where
  "chunks n xs = (if n = 0 \<or> xs = [] then [] else take n xs # chunks n (drop n xs))"

declare chunks.simps [simp del]

definition encode_chunk :: "bytes \<Rightarrow> string" where
  "encode_chunk chunk =
     (let b0 = chunk ! 0;
          b1 = (if 1 < length chunk then chunk ! 1 else 0);
          b2 = (if 2 < length chunk then chunk ! 2 else 0);
          n = push_bit 16 (ucast b0) OR push_bit 8 (ucast b1) OR ucast b2 :: u32
      in [B64URL_ALPHABET ! unat (drop_bit 18 n AND 0x3f), B64URL_ALPHABET ! unat (drop_bit 12 n AND 0x3f)]
         @ (if 1 < length chunk then [B64URL_ALPHABET ! unat (drop_bit 6 n AND 0x3f)] else [])
         @ (if 2 < length chunk then [B64URL_ALPHABET ! unat (n AND 0x3f)] else []))"

definition base64url_encode :: "bytes \<Rightarrow> string" where
  "base64url_encode input = concat (map encode_chunk (chunks 3 input))"

definition char_value :: "u8 \<Rightarrow> u8 option" where
  "char_value c =
     (if 65 \<le> c \<and> c \<le> 90 then Some (c - 65)
      else if 97 \<le> c \<and> c \<le> 122 then Some (c - 97 + 26)
      else if 48 \<le> c \<and> c \<le> 57 then Some (c - 48 + 52)
      else if c = 45 then Some 62
      else if c = 95 then Some 63
      else None)"

definition decode_group :: "bytes \<Rightarrow> bytes option" where
  "decode_group vals =
     (if length vals = 4 then
        let n = push_bit 18 (ucast (vals ! 0)) OR push_bit 12 (ucast (vals ! 1))
                OR push_bit 6 (ucast (vals ! 2)) OR ucast (vals ! 3) :: u32
        in Some [ucast (drop_bit 16 n), ucast (drop_bit 8 n), ucast n]
      else if length vals = 3 then
        let n = push_bit 18 (ucast (vals ! 0)) OR push_bit 12 (ucast (vals ! 1))
                OR push_bit 6 (ucast (vals ! 2)) :: u32
        in Some [ucast (drop_bit 16 n), ucast (drop_bit 8 n)]
      else if length vals = 2 then
        let n = push_bit 18 (ucast (vals ! 0)) OR push_bit 12 (ucast (vals ! 1)) :: u32
        in Some [ucast (drop_bit 16 n)]
      else None)"

text \<open>\<open>collect::<Option<Vec<u8>>>\<close>: all or nothing.\<close>

fun collect_values :: "bytes \<Rightarrow> bytes option" where
  "collect_values [] = Some []"
| "collect_values (c # cs) = do { v \<leftarrow> char_value c; vs \<leftarrow> collect_values cs; Some (v # vs) }"

fun decode_groups :: "bytes list \<Rightarrow> bytes option" where
  "decode_groups [] = Some []"
| "decode_groups (g # gs) = do {
     vals \<leftarrow> collect_values g;
     out \<leftarrow> decode_group vals;
     rest \<leftarrow> decode_groups gs;
     Some (out @ rest) }"

definition base64url_decode :: "bytes \<Rightarrow> bytes option" where
  "base64url_decode input = decode_groups (chunks 4 input)"

section \<open>The round trip\<close>

lemma mask_3f: "(0x3f :: u32) = mask 6"
  by (simp add: mask_eq_exp_minus_1)

lemma alphabet_values: "list_all (\<lambda>k. char_value (of_char (B64URL_ALPHABET ! k)) = Some (of_nat k)) [0..<64]"
  by (simp add: upt_rec B64URL_ALPHABET_def char_value_def)

lemma char_value_alphabet:
  "char_value (of_char (B64URL_ALPHABET ! unat (w AND 0x3f))) = Some (ucast (w AND 0x3f))" for w :: u32
proof -
  have "unat (w AND 0x3f) < 64"
    by (simp add: mask_3f flip: take_bit_eq_mask) (simp add: unsigned_take_bit_eq take_bit_nat_less_exp [of 6, simplified])
  then have "char_value (of_char (B64URL_ALPHABET ! unat (w AND 0x3f))) = Some (of_nat (unat (w AND 0x3f)))"
    using alphabet_values by (simp add: list_all_iff)
  then show ?thesis by simp
qed

text \<open>Four six-bit values make up the 24 bits they were taken from.\<close>

definition sextets :: "u32 \<Rightarrow> bytes" where
  "sextets n = [ucast (drop_bit 18 n AND 0x3f), ucast (drop_bit 12 n AND 0x3f), ucast (drop_bit 6 n AND 0x3f),
     ucast (n AND 0x3f)]"

definition join24 :: "u8 \<Rightarrow> u8 \<Rightarrow> u8 \<Rightarrow> u32" where
  "join24 a b c = push_bit 16 (ucast a) OR push_bit 8 (ucast b) OR ucast c"

lemma join24_sextets:
  "push_bit 18 (ucast (sextets n ! 0)) OR push_bit 12 (ucast (sextets n ! 1))
     OR push_bit 6 (ucast (sextets n ! 2)) OR ucast (sextets n ! 3) = (take_bit 24 n :: u32)"
proof (rule bit_word_eqI)
  fix k
  assume "k < LENGTH(32)"
  then consider "k < 6" | "6 \<le> k" "k < 12" | "12 \<le> k" "k < 18" | "18 \<le> k" "k < 24" | "24 \<le> k" "k < 32"
    by force
  then show "bit (push_bit 18 (ucast (sextets n ! 0)) OR push_bit 12 (ucast (sextets n ! 1))
     OR push_bit 6 (ucast (sextets n ! 2)) OR ucast (sextets n ! 3) :: u32) k = bit (take_bit 24 n) k"
    by cases (auto simp: sextets_def mask_3f bit_simps)
qed

lemma join24_bytes:
  "ucast (drop_bit 16 (join24 a b c)) = a" "ucast (drop_bit 8 (join24 a b c)) = b" "ucast (join24 a b c) = c"
  "take_bit 24 (join24 a b c) = join24 a b c"
  by (auto simp: join24_def bit_simps intro!: bit_word_eqI)

lemma sextets_of_two: "sextets (join24 a b 0) ! 3 = 0"
  by (rule bit_word_eqI) (auto simp: sextets_def join24_def mask_3f bit_simps)

lemma sextets_of_one: "sextets (join24 a 0 0) ! 2 = 0" "sextets (join24 a 0 0) ! 3 = 0"
  by (auto simp: sextets_def join24_def mask_3f bit_simps intro!: bit_word_eqI)

lemma collect_values_encode_chunk:
  assumes "chunk \<noteq> []" and "length chunk \<le> 3"
  shows "collect_values (as_bytes (encode_chunk chunk)) =
    Some (take (Suc (length chunk))
      (sextets (join24 (chunk ! 0) (if 1 < length chunk then chunk ! 1 else 0) (if 2 < length chunk then chunk ! 2 else 0))))"
proof -
  from assms consider a where "chunk = [a]" | a b where "chunk = [a, b]" | a b c where "chunk = [a, b, c]"
    by (cases chunk rule: remdups_adj.cases) (auto simp: length_Suc_conv le_Suc_eq numeral_eq_Suc)
  then show ?thesis
    by cases (simp_all add: encode_chunk_def as_bytes_def sextets_def join24_def Let_def char_value_alphabet
        flip: join24_def)
qed

lemma decode_group_sextets:
  assumes "chunk \<noteq> []" and "length chunk \<le> 3"
  shows "decode_group (take (Suc (length chunk))
      (sextets (join24 (chunk ! 0) (if 1 < length chunk then chunk ! 1 else 0) (if 2 < length chunk then chunk ! 2 else 0))))
    = Some chunk"
proof -
  have len: "length (sextets n) = 4" for n by (simp add: sextets_def)
  from assms consider a where "chunk = [a]" | a b where "chunk = [a, b]" | a b c where "chunk = [a, b, c]"
    by (cases chunk rule: remdups_adj.cases) (auto simp: length_Suc_conv le_Suc_eq numeral_eq_Suc)
  then show ?thesis
  proof cases
    case 1
    then show ?thesis
      using join24_sextets [of "join24 (chunk ! 0) 0 0"]
      by (simp add: decode_group_def len sextets_of_one join24_bytes)
  next
    case 2
    then show ?thesis
      using join24_sextets [of "join24 (chunk ! 0) (chunk ! 1) 0"]
      by (simp add: decode_group_def len sextets_of_two join24_bytes)
  next
    case 3
    then show ?thesis
      using join24_sextets [of "join24 (chunk ! 0) (chunk ! 1) (chunk ! 2)"]
      by (simp add: decode_group_def len join24_bytes)
  qed
qed

lemma length_encode_chunk:
  "chunk \<noteq> [] \<Longrightarrow> length chunk \<le> 3 \<Longrightarrow> length (encode_chunk chunk) = Suc (length chunk)"
  by (cases chunk rule: remdups_adj.cases) (auto simp: encode_chunk_def Let_def le_Suc_eq numeral_eq_Suc)

lemma chunks_cons: "length g = n \<Longrightarrow> 0 < n \<Longrightarrow> chunks n (g @ rest) = g # chunks n rest"
  by (subst chunks.simps) auto

lemma chunks_last: "g \<noteq> [] \<Longrightarrow> length g \<le> n \<Longrightarrow> chunks n g = [g]"
  by (cases "n = 0") (simp_all add: chunks.simps [of n g] chunks.simps [of n "[]"])

lemma as_bytes_append [simp]: "as_bytes (s @ t) = as_bytes s @ as_bytes t"
  by (simp add: as_bytes_def)

lemma as_bytes_Nil_iff [simp]: "as_bytes s = [] \<longleftrightarrow> s = []"
  by (simp add: as_bytes_def)

lemma encode_cons: "xs \<noteq> [] \<Longrightarrow> base64url_encode xs = encode_chunk (take 3 xs) @ base64url_encode (drop 3 xs)"
  by (simp add: base64url_encode_def chunks.simps [of 3 xs])

lemma encode_nil [simp]: "base64url_encode [] = []"
  by (simp add: base64url_encode_def chunks.simps)

lemma decode_groups_cons:
  "collect_values g \<bind> decode_group = Some out \<Longrightarrow>
   decode_groups (g # gs) = map_option ((@) out) (decode_groups gs)"
  by (cases "collect_values g"; cases "decode_groups gs") simp_all

lemma decode_encode: "base64url_decode (as_bytes (base64url_encode xs)) = Some xs"
proof (induction xs rule: length_induct)
  case (1 xs)
  show ?case
  proof (cases "xs = []")
    case True
    then show ?thesis by (simp add: base64url_decode_def chunks.simps as_bytes_def)
  next
    case False
    let ?g = "take 3 xs"
    let ?e = "as_bytes (encode_chunk ?g)"
    have g: "?g \<noteq> []" "length ?g \<le> 3" using False by simp_all
    have e: "length ?e = Suc (length ?g)" using length_encode_chunk [OF g] by simp
    have vals: "collect_values ?e \<bind> decode_group = Some ?g"
      using collect_values_encode_chunk [OF g] decode_group_sextets [OF g] by simp
    show ?thesis
    proof (cases "length xs < 3")
      case True
      then have "chunks 4 ?e = [?e]" using e g(2) by (intro chunks_last) auto
      moreover have "?e \<noteq> []" using e by auto
      ultimately show ?thesis using True vals
        by (simp add: encode_cons [OF False] base64url_decode_def decode_groups_cons decode_groups.simps(1) del: decode_groups.simps(2))
    next
      case False
      then have "chunks 4 (?e @ r) = ?e # chunks 4 r" for r using e by (intro chunks_cons) auto
      moreover have "base64url_decode (as_bytes (base64url_encode (drop 3 xs))) = Some (drop 3 xs)"
        using 1 False by simp
      moreover have "xs \<noteq> []" using False by auto
      ultimately show ?thesis
        using vals by (simp add: encode_cons base64url_decode_def decode_groups_cons decode_groups.simps(1) del: decode_groups.simps(2))
    qed
  qed
qed

interpretation base64url: partial_codec "\<lambda>xs. as_bytes (base64url_encode xs)" base64url_decode "\<lambda>_. True"
  by unfold_locales (simp add: decode_encode)

lemma length_base64url_encode: "length (base64url_encode xs) = length xs + (length xs + 2) div 3"
proof (induction xs rule: length_induct)
  case (1 xs)
  show ?case
  proof (cases "xs = []")
    case False
    then have hd: "length (encode_chunk (take 3 xs)) = Suc (min (length xs) 3)"
      by (subst length_encode_chunk) auto
    have tl: "length (base64url_encode (drop 3 xs)) = length xs - 3 + (length xs - 3 + 2) div 3"
      using 1 False by simp
    consider "length xs = 1" | "length xs = 2" | m where "length xs = m + 3"
      using False length_0_conv [of xs] by (metis One_nat_def add.commute less_2_cases less_Suc_eq
          less_imp_add_positive nat_le_iff_add not_less numeral_2_eq_2 numeral_3_eq_3)
    then show ?thesis
      using False hd tl by cases (simp_all add: encode_cons)
  qed simp
qed

section \<open>Properties\<close>

text \<open>Base64url round-trips. Decoding the encoding of any bytes gives the bytes back, and the
  encoding of \<open>n\<close> bytes has \<open>n + (n + 2) div 3\<close> characters, so 27 for a 20-byte nonce.\<close>
theorem base64url_roundtrip:
  "base64url_decode (as_bytes (base64url_encode xs)) = Some xs
   \<and> length (base64url_encode xs) = length xs + (length xs + 2) div 3"
  by (simp add: decode_encode length_base64url_encode)

end
