(* ===== verification/Client.thy ===== *)
theory Client
  imports Codec
begin

text \<open>
  The UDP client of \<open>src/client.rs\<close> and the transaction id of \<open>src/transaction_id.rs\<close>. What
  the code cannot compute is an argument: the operating system's random source, the outcome of each
  \<open>send_to\<close>, and one entry per turn of the receive loop, holding the clock reading of that turn
  and how \<open>timeout(remaining, recv_from)\<close> ended. The results quantify over all of these, so no
  honesty of the clock or the network is assumed. Instants are natural numbers: a timeout that the platform
  cannot add to its clock, on which the code panics before the first turn, is not represented.
\<close>

section \<open>The environment\<close>

text \<open>The random source: the \<open>k\<close>-th request for \<open>n\<close> bytes; \<open>None\<close> when it fails.\<close>

type_synonym csprng = "nat \<Rightarrow> nat \<Rightarrow> bytes option"

definition new_transaction_id :: "csprng \<Rightarrow> nat \<Rightarrow> transaction_id option" where
  "new_transaction_id fill k = do { id_bytes \<leftarrow> fill k 12; txid_of_slice id_bytes }"

text \<open>How the wait of one turn ended: a datagram, a socket error, or the timer.\<close>

datatype recv = Datagram bytes socket_addr | RecvFailed string | Elapsed

type_synonym poll = "nat \<times> recv"

text \<open>What the code does to the outside: the datagrams it sends and the timers it sets.\<close>

datatype io_event = SendTo bytes socket_addr | Wait nat

text \<open>\<open>Waiting\<close>: all given turns were consumed and the loop goes on.\<close>

datatype 'r run = Waiting | Panicked | Done 'r

text \<open>\<open>recv_from\<close> into the 512-byte buffer: a longer datagram is cut.\<close>

definition received :: "bytes \<Rightarrow> bytes" where
  "received datagram = take 512 datagram"

section \<open>The client\<close>

fun query_loop ::
  "transaction_id \<Rightarrow> socket_addr \<Rightarrow> nat \<Rightarrow> poll list \<Rightarrow> io_event list \<times> (stun_error + socket_addr) run" where
  "query_loop txid server deadline [] = ([], Waiting)"
| "query_loop txid server deadline ((now, outcome) # polls) =
     (let remaining = deadline - now
      in if remaining = 0 then ([], Done (Inl Timeout))
         else (case outcome of
             RecvFailed e \<Rightarrow> ([Wait remaining], Done (Inl (Io e)))
           | Elapsed \<Rightarrow> ([Wait remaining], Done (Inl Timeout))
           | Datagram d from \<Rightarrow>
               if from \<noteq> server
               then (let (io, res) = query_loop txid server deadline polls in (Wait remaining # io, res))
               else (case parse_binding_response (received d) (Some txid) of
                   None \<Rightarrow> ([Wait remaining], Panicked)
                 | Some (Inl e) \<Rightarrow> ([Wait remaining], Done (Inl e))
                 | Some (Inr addr) \<Rightarrow>
                     if scope_of addr = NeverDialable
                     then ([Wait remaining], Done (Inl NoMappedAddress))
                     else ([Wait remaining], Done (Inr addr)))))"

definition query_reflexive_address ::
  "csprng \<Rightarrow> string option \<Rightarrow> nat \<Rightarrow> socket_addr \<Rightarrow> nat \<Rightarrow> poll list
   \<Rightarrow> io_event list \<times> (stun_error + socket_addr) run" where
  "query_reflexive_address fill send_error start server timeout polls =
     (case new_transaction_id fill 0 of
        None \<Rightarrow> ([], Panicked)
      | Some txid \<Rightarrow>
          let req = encode_binding_request txid
          in (case send_error of
                Some e \<Rightarrow> ([SendTo req server], Done (Inl (Io e)))
              | None \<Rightarrow>
                  let deadline = start + timeout;
                      (io, res) = query_loop txid server deadline polls
                  in (SendTo req server # io, res)))"

section \<open>Lemmas\<close>

text \<open>A turn that the loop passes over: before the deadline, from someone else.\<close>

fun stray :: "socket_addr \<Rightarrow> nat \<Rightarrow> poll \<Rightarrow> bool" where
  "stray server deadline (now, Datagram d from) \<longleftrightarrow> now < deadline \<and> from \<noteq> server"
| "stray server deadline (now, _) \<longleftrightarrow> False"

lemma stray_iff:
  "stray server deadline p \<longleftrightarrow> (\<exists>now d from. p = (now, Datagram d from) \<and> now < deadline \<and> from \<noteq> server)"
  by (cases "(server, deadline, p)" rule: stray.cases) auto

lemma query_loop_strays:
  "list_all (stray server deadline) strays \<Longrightarrow>
   snd (query_loop txid server deadline (strays @ polls)) = snd (query_loop txid server deadline polls)"
  by (induction strays) (auto simp: stray_iff Let_def split: prod.split)

text \<open>What a turn that is not passed over decides.\<close>

definition decision ::
  "transaction_id \<Rightarrow> nat \<Rightarrow> poll \<Rightarrow> stun_error + socket_addr" where
  "decision txid deadline p =
     (case p of (now, outcome) \<Rightarrow>
        if deadline \<le> now then Inl Timeout
        else (case outcome of
            RecvFailed e \<Rightarrow> Inl (Io e)
          | Elapsed \<Rightarrow> Inl Timeout
          | Datagram d from \<Rightarrow>
              (case the (parse_binding_response (received d) (Some txid)) of
                 Inl e \<Rightarrow> Inl e
               | Inr addr \<Rightarrow> if is_usable_reflexive_addr addr then Inr addr else Inl NoMappedAddress)))"

lemma query_loop_decision:
  "\<not> stray server deadline p \<Longrightarrow>
   snd (query_loop txid server deadline (p # polls)) = Done (decision txid deadline p)"
  using parse_response_total [of "received (case snd p of Datagram d _ \<Rightarrow> d | _ \<Rightarrow> [])" "Some txid"]
  by (cases p; cases "snd p")
    (auto simp: decision_def is_usable_reflexive_addr_def stray_iff split: sum.split)

lemma query_loop_result:
  "snd (query_loop txid server deadline polls) =
     (case dropWhile (stray server deadline) polls of
        [] \<Rightarrow> Waiting | p # _ \<Rightarrow> Done (decision txid deadline p))"
proof -
  let ?s = "stray server deadline"
  have "list_all ?s (takeWhile ?s polls)" by (auto simp: list_all_iff dest: set_takeWhileD)
  then have "snd (query_loop txid server deadline polls)
    = snd (query_loop txid server deadline (dropWhile ?s polls))"
    using query_loop_strays [of server deadline "takeWhile ?s polls" txid "dropWhile ?s polls"] by simp
  also have "\<dots> = (case dropWhile ?s polls of [] \<Rightarrow> Waiting | p # _ \<Rightarrow> Done (decision txid deadline p))"
  proof (cases "dropWhile ?s polls")
    case Nil
    then show ?thesis by (simp del: dropWhile_eq_Nil_conv)
  next
    case (Cons p ps)
    then have "\<not> ?s p" by (metis hd_dropWhile list.distinct(1) list.sel(1))
    then show ?thesis by (simp add: Cons query_loop_decision del: query_loop.simps)
  qed
  finally show ?thesis .
qed

lemma query_loop_waits:
  "\<exists>ws. fst (query_loop txid server deadline polls) = map Wait ws
     \<and> (\<forall>w \<in> set ws. \<exists>p \<in> set polls. w = deadline - fst p \<and> 0 < w)"
proof (induction txid server deadline polls rule: query_loop.induct)
  case (2 txid server deadline now outcome polls)
  show ?case
  proof (cases "deadline \<le> now")
    case False
    let ?w = "deadline - now"
    show ?thesis
    proof (cases "\<exists>d from. outcome = Datagram d from \<and> from \<noteq> server")
      case True
      then obtain d "from" where o: "outcome = Datagram d from" "from \<noteq> server" by blast
      with 2 False obtain ws where ws: "fst (query_loop txid server deadline polls) = map Wait ws"
        "\<forall>w \<in> set ws. \<exists>p \<in> set polls. w = deadline - fst p \<and> 0 < w" by fastforce
      then have "fst (query_loop txid server deadline ((now, outcome) # polls)) = map Wait (?w # ws)"
        using o False by (simp add: Let_def case_prod_beta)
      with ws False show ?thesis by (intro exI [of _ "?w # ws"]) auto
    next
      case nostray: False
      then have "fst (query_loop txid server deadline ((now, outcome) # polls)) = map Wait [?w]"
        using False by (auto simp: Let_def split: recv.split option.split sum.split)
      with False show ?thesis by (intro exI [of _ "[?w]"]) auto
    qed
  qed simp
qed simp

lemma query_result:
  "new_transaction_id fill 0 = Some txid \<Longrightarrow>
   query_reflexive_address fill None start server timeout polls =
     (SendTo (encode_binding_request txid) server # fst (query_loop txid server (start + timeout) polls),
      snd (query_loop txid server (start + timeout) polls))"
  by (simp add: query_reflexive_address_def Let_def case_prod_beta)

lemma query_send_error:
  "new_transaction_id fill 0 = Some txid \<Longrightarrow>
   query_reflexive_address fill (Some e) start server timeout polls =
     ([SendTo (encode_binding_request txid) server], Done (Inl (Io e)))"
  by (simp add: query_reflexive_address_def)

lemma query_no_entropy:
  "new_transaction_id fill 0 = None \<Longrightarrow>
   query_reflexive_address fill se start server timeout polls = ([], Panicked)"
  by (simp add: query_reflexive_address_def)

lemma dropWhile_eq_Cons:
  "dropWhile P xs = y # ys \<longleftrightarrow> (\<exists>us. xs = us @ y # ys \<and> list_all P us \<and> \<not> P y)"
proof
  assume d: "dropWhile P xs = y # ys"
  then have "xs = takeWhile P xs @ y # ys" by (metis takeWhile_dropWhile_id)
  moreover have "list_all P (takeWhile P xs)" by (auto simp: list_all_iff dest: set_takeWhileD)
  moreover have "\<not> P y" using d by (metis hd_dropWhile list.distinct(1) list.sel(1))
  ultimately show "\<exists>us. xs = us @ y # ys \<and> list_all P us \<and> \<not> P y" by blast
qed (auto simp: list_all_iff dropWhile_append2)

lemma decision_ok_iff:
  "decision txid deadline p = Inr a \<longleftrightarrow>
     (\<exists>now d from. p = (now, Datagram d from) \<and> now < deadline
        \<and> parse_binding_response (received d) (Some txid) = Some (Inr a) \<and> is_usable_reflexive_addr a)"
proof (cases p)
  case (Pair now outcome)
  show ?thesis
  proof (cases outcome)
    case (Datagram d "from")
    then show ?thesis
      using parse_response_total [of "received d" "Some txid"]
      by (auto simp: Pair decision_def split: sum.splits if_splits)
  qed (auto simp: Pair decision_def)
qed

lemma parse_ok_header:
  assumes "parse_binding_response msg (Some t) = Some (Inr a)"
  shows "\<exists>len body. msg = header BINDING_SUCCESS len MAGIC_COOKIE t @ body"
proof -
  have "20 \<le> length msg"
    using assms by (rule_tac ccontr) (simp add: parse_response_short)
  then obtain ty len ck u rest where "msg = header ty len ck u @ rest"
    by (rule header_split)
  with assms show ?thesis
    by (auto simp: parse_response_header split: if_splits)
qed

lemma received_success [simp]: "received (encode_binding_success t a) = encode_binding_success t a"
  by (simp add: received_def encode_success_header Let_def success_attr_length split: ip_addr.split)

section \<open>Properties\<close>

lemma query_sent_ok:
  assumes "new_transaction_id fill 0 = Some txid" and "send_error = None"
  shows "snd (query_reflexive_address fill send_error start server timeout polls) = Done (Inr a) \<longleftrightarrow>
    (\<exists>strays now d rest. polls = strays @ (now, Datagram d server) # rest
       \<and> list_all (stray server (start + timeout)) strays \<and> now < start + timeout
       \<and> parse_binding_response (received d) (Some txid) = Some (Inr a) \<and> is_usable_reflexive_addr a)"
proof -
  have "snd (query_reflexive_address fill send_error start server timeout polls) = Done (Inr a) \<longleftrightarrow>
      (\<exists>p ps. dropWhile (stray server (start + timeout)) polls = p # ps \<and> decision txid (start + timeout) p = Inr a)"
    by (simp add: assms(2) query_result [OF assms(1)] query_loop_result split: list.split del: dropWhile_eq_Nil_conv)
  then show ?thesis
    unfolding dropWhile_eq_Cons decision_ok_iff by (auto simp: stray_iff) blast
qed

text \<open>C18: when the client believes an address. It returns \<open>Ok(a)\<close> exactly when the request was sent
  and the first turn that is not a foreign datagram before the deadline is a datagram from the
  queried server, in time, whose first 512 bytes parse under the transaction id just sent to
  \<open>a\<close>, with \<open>a\<close> not never-dialable; that datagram then is a success response carrying the
  magic cookie and this very transaction id.\<close>
theorem query_ok_iff:
  "snd (query_reflexive_address fill send_error start server timeout polls) = Done (Inr a) \<longleftrightarrow>
     (\<exists>txid strays now d rest len body.
        new_transaction_id fill 0 = Some txid \<and> send_error = None
        \<and> polls = strays @ (now, Datagram d server) # rest
        \<and> list_all (stray server (start + timeout)) strays \<and> now < start + timeout
        \<and> parse_binding_response (received d) (Some txid) = Some (Inr a)
        \<and> is_usable_reflexive_addr a
        \<and> received d = header BINDING_SUCCESS len MAGIC_COOKIE txid @ body)"
  (is "?L \<longleftrightarrow> ?R")
proof
  assume ?L
  then obtain txid where sent: "new_transaction_id fill 0 = Some txid" "send_error = None"
    by (cases "new_transaction_id fill 0"; cases send_error) (simp_all add: query_no_entropy query_send_error)
  with \<open>?L\<close> obtain strays now d rest where r: "polls = strays @ (now, Datagram d server) # rest"
    "list_all (stray server (start + timeout)) strays" "now < start + timeout"
    "parse_binding_response (received d) (Some txid) = Some (Inr a)" "is_usable_reflexive_addr a"
    unfolding query_sent_ok [OF sent] by metis
  moreover obtain len body where "received d = header BINDING_SUCCESS len MAGIC_COOKIE txid @ body"
    using parse_ok_header [OF r(4)] by metis
  ultimately show ?R using sent by (intro exI conjI)
next
  assume ?R
  then show ?L using query_sent_ok by blast
qed

text \<open>An honest server is always heard. However many datagrams arrive first from other
  sources, if the server's success reply to this transaction arrives before the deadline and the
  address it names is usable, the client returns that address (folded, port unchanged).\<close>
theorem query_hears_honest_server:
  assumes "new_transaction_id fill 0 = Some txid"
    and "list_all (stray server (start + timeout)) strays" and "now < start + timeout"
    and "is_usable_reflexive_addr a"
  shows "snd (query_reflexive_address fill None start server timeout
           (strays @ (now, Datagram (encode_binding_success txid a) server) # rest))
       = Done (Inr (sock_new (fold_ip (sock_ip a)) (sock_port a)))"
proof -
  let ?a = "sock_new (fold_ip (sock_ip a)) (sock_port a)"
  have "is_usable_reflexive_addr ?a"
    using assms(4) by (simp add: usable_folded)
  then have "decision txid (start + timeout) (now, Datagram (encode_binding_success txid a) server) = Inr ?a"
    using assms(3) parse_encode_success by (simp add: decision_ok_iff)
  moreover have "\<not> stray server (start + timeout) (now, Datagram (encode_binding_success txid a) server)"
    by simp
  ultimately show ?thesis
    using assms(2) by (simp add: query_result [OF assms(1)] query_loop_strays query_loop_decision
        del: query_loop.simps)
qed

definition example_fill :: csprng where
  "example_fill k n = Some (replicate n (of_nat k))"

lemma example_fill_txid [simp]: "new_transaction_id example_fill k = Some (Txid (replicate 12 (of_nat k)))"
  by (simp add: new_transaction_id_def example_fill_def txid_of_slice_def)

theorem query_hears_honest_server_witness:
  "snd (query_reflexive_address example_fill None 100 (SockV4 (Ipv4 9 9 9 9) 3478) 50
     ([(110, Datagram [1, 2, 3] (SockV4 (Ipv4 6 6 6 6) 1))]
      @ (120, Datagram (encode_binding_success (Txid (replicate 12 0)) (SockV4 (Ipv4 8 8 4 4) 9444))
          (SockV4 (Ipv4 9 9 9 9) 3478)) # []))
   = Done (Inr (SockV4 (Ipv4 8 8 4 4) 9444))"
  by (subst query_hears_honest_server [where txid = "Txid (replicate 12 0)"])
    (simp_all add: is_usable_reflexive_addr_def scope_of_def scope_of_ip_def)

text \<open>The only ways out. The client panics exactly when the random source fails, and keeps
  waiting exactly when every turn so far was a foreign datagram before the deadline: any turn at or
  after the deadline, a timer, a socket error or a datagram from the server ends it.\<close>
theorem query_outcomes:
  "(snd (query_reflexive_address fill send_error start server timeout polls) = Panicked
      \<longleftrightarrow> new_transaction_id fill 0 = None)
   \<and> (snd (query_reflexive_address fill send_error start server timeout polls) = Waiting
      \<longleftrightarrow> new_transaction_id fill 0 \<noteq> None \<and> send_error = None
          \<and> list_all (stray server (start + timeout)) polls)"
proof (cases "new_transaction_id fill 0")
  case None
  then show ?thesis by (simp add: query_no_entropy)
next
  case (Some txid)
  show ?thesis
  proof (cases send_error)
    case None
    show ?thesis
      using Some by (cases "dropWhile (stray server (start + timeout)) polls")
        (auto simp: None query_result query_loop_result list_all_iff dest: set_dropWhileD
          simp flip: dropWhile_eq_Nil_conv)
  qed (use Some in \<open>simp add: query_send_error\<close>)
qed

text \<open>One transaction is one datagram. The client sends exactly one datagram, the Binding
  request, to the queried server, and otherwise only sets timers; when the clock never reads earlier
  than at the start, no timer is zero or longer than the caller's timeout.\<close>
theorem query_io:
  assumes "new_transaction_id fill 0 = Some txid" and "\<forall>p \<in> set polls. start \<le> fst p"
  shows "\<exists>ws. fst (query_reflexive_address fill send_error start server timeout polls)
       = SendTo (encode_binding_request txid) server # map Wait ws \<and> (\<forall>w \<in> set ws. 0 < w \<and> w \<le> timeout)"
proof (cases send_error)
  case (Some e)
  then show ?thesis by (simp add: query_send_error [OF assms(1)])
next
  case None
  obtain ws where "fst (query_loop txid server (start + timeout) polls) = map Wait ws"
    "\<forall>w \<in> set ws. \<exists>p \<in> set polls. w = start + timeout - fst p \<and> 0 < w"
    using query_loop_waits by blast
  with assms None show ?thesis
    by (intro exI [of _ ws]) (fastforce simp: query_result)
qed

theorem query_io_witness:
  "\<exists>ws. fst (query_reflexive_address example_fill None 100 (SockV4 (Ipv4 9 9 9 9) 3478) 50 [(130, Elapsed)])
     = SendTo (encode_binding_request (Txid (replicate 12 0))) (SockV4 (Ipv4 9 9 9 9) 3478) # map Wait ws
       \<and> (\<forall>w \<in> set ws. 0 < w \<and> w \<le> 50)"
  by (rule query_io) simp_all

end
