(* ===== verification/Nonce.thy ===== *)
theory Nonce
  imports Wire Client
begin

text \<open>
  The stateless nonce, \<open>src/credential/nonce.rs\<close>. The MAC is not code of the crate
  (\<open>ring::hmac\<close>): it is the argument \<open>hmac\<close>, a function of key and message, and what the code
  relies on, that an HMAC-SHA256 output has 32 bytes, is the named hypothesis \<open>hmac_sha256_output\<close>.
  Unforgeability is not assumed: the statements on other sources reduce to a collision of the
  truncated MAC.
\<close>

section \<open>The code\<close>

type_synonym mac = "bytes \<Rightarrow> bytes \<Rightarrow> bytes"

definition hmac_sha256_output :: "mac \<Rightarrow> bool" where
  "hmac_sha256_output hmac \<longleftrightarrow> (\<forall>key msg. length (hmac key msg) = 32)"

definition NONCE_LEN :: nat where "NONCE_LEN = 20"
definition NONCE_BUCKET_SECS :: u64 where "NONCE_BUCKET_SECS = 60"
definition NONCE_DOMAIN_TAG :: bytes where "NONCE_DOMAIN_TAG = as_bytes ''dig:stun:nonce:v1''"
definition NONCE_FAMILY_IPV4 :: u8 where "NONCE_FAMILY_IPV4 = 0x01"
definition NONCE_FAMILY_IPV6 :: u8 where "NONCE_FAMILY_IPV6 = 0x02"

datatype nonce_check = Fresh | Stale | Invalid

record nonce_issuer =
  secret :: bytes

definition new_random :: "csprng \<Rightarrow> nat \<Rightarrow> nonce_issuer option" where
  "new_random fill k = do { secret \<leftarrow> fill k 32; Some \<lparr>secret = secret\<rparr> }"

definition from_secret :: "bytes \<Rightarrow> nonce_issuer" where
  "from_secret s = \<lparr>secret = s\<rparr>"

definition nonce_message :: "u32 \<Rightarrow> socket_addr \<Rightarrow> bytes" where
  "nonce_message bucket source =
     (let message = [];
          message = message @ NONCE_DOMAIN_TAG;
          message = message @ be32 bucket;
          message = (case fold_ip (sock_ip source) of
              IpV4 v4 \<Rightarrow> (message @ [NONCE_FAMILY_IPV4]) @ octets4 v4
            | IpV6 v6 \<Rightarrow> (message @ [NONCE_FAMILY_IPV6]) @ octets6 v6)
      in message @ be16 (sock_port source))"

definition tag_for :: "mac \<Rightarrow> nonce_issuer \<Rightarrow> u32 \<Rightarrow> socket_addr \<Rightarrow> bytes option" where
  "tag_for hmac issuer bucket source = slice (hmac (secret issuer) (nonce_message bucket source)) 0 16"

definition bucket_of :: "u64 \<Rightarrow> u32" where
  "bucket_of now_unix_secs = ucast (now_unix_secs div NONCE_BUCKET_SECS)"

definition issue :: "mac \<Rightarrow> nonce_issuer \<Rightarrow> socket_addr \<Rightarrow> u64 \<Rightarrow> bytes option" where
  "issue hmac issuer source now_unix_secs = do {
     let bucket = bucket_of now_unix_secs;
     tag \<leftarrow> tag_for hmac issuer bucket source;
     Some (be32 bucket @ tag) }"

definition constant_time_eq :: "bytes \<Rightarrow> bytes \<Rightarrow> bool" where
  "constant_time_eq a b =
     (if length a \<noteq> length b then False
      else foldl (\<lambda>diff (x, y). diff OR (x XOR y)) 0 (zip a b) = 0)"

definition check_nonce :: "mac \<Rightarrow> nonce_issuer \<Rightarrow> bytes \<Rightarrow> socket_addr \<Rightarrow> u64 \<Rightarrow> nonce_check option" where
  "check_nonce hmac issuer nonce_attr_value source now_unix_secs =
     (case base64url_decode nonce_attr_value of
        None \<Rightarrow> Some Invalid
      | Some decoded \<Rightarrow>
          if length decoded \<noteq> NONCE_LEN then Some Invalid
          else do {
            bucket \<leftarrow> read_be32 decoded 0;
            carried_tag \<leftarrow> slice decoded 4 NONCE_LEN;
            expected_tag \<leftarrow> tag_for hmac issuer bucket source;
            if \<not> constant_time_eq carried_tag expected_tag then Some Invalid
            else
              let now_bucket = bucket_of now_unix_secs
              in if bucket = now_bucket \<or> bucket = now_bucket - 1 then Some Fresh else Some Stale })"

section \<open>Lemmas\<close>

lemma or_eq_0_iff: "(a OR b = 0) \<longleftrightarrow> a = 0 \<and> b = 0" for a b :: "'a::len word"
  by (auto simp: bit_eq_iff bit_simps)

lemma xor_eq_0_iff: "a XOR b = 0 \<longleftrightarrow> a = b" for a b :: "'a::len word"
  by (auto simp: bit_eq_iff bit_simps)

lemma xor_accumulate:
  "foldl (\<lambda>diff (x, y). diff OR (x XOR y)) d ps = 0 \<longleftrightarrow> d = 0 \<and> list_all (\<lambda>(x, y). x = y) ps"
  for d :: u8
proof (induction ps arbitrary: d)
  case (Cons p ps)
  obtain x y where "p = (x, y)" by (rule prod.exhaust)
  with Cons [of "d OR (x XOR y)"] show ?case
    by (simp only: foldl.simps list.pred_inject(2) prod.case or_eq_0_iff xor_eq_0_iff conj_assoc)
qed simp

lemma constant_time_eq_iff: "constant_time_eq a b \<longleftrightarrow> a = b"
proof (cases "length a = length b")
  case True
  then have "list_all (\<lambda>(x, y). x = y) (zip a b) \<longleftrightarrow> a = b"
    by (induction a b rule: list_induct2) auto
  then show ?thesis by (simp add: constant_time_eq_def xor_accumulate True)
qed (auto simp: constant_time_eq_def)

lemma tag_for_some:
  "hmac_sha256_output hmac \<Longrightarrow>
   tag_for hmac issuer b src = Some (take 16 (hmac (secret issuer) (nonce_message b src)))"
  by (simp add: tag_for_def hmac_sha256_output_def slice_def)

lemma tag_length: "tag_for hmac issuer b src = Some tag \<Longrightarrow> length tag = 16"
  by (auto simp: tag_for_def dest: slice_length)

text \<open>The message identifies bucket, folded address and port.\<close>

lemma nonce_message_inject:
  "nonce_message b s = nonce_message b' s' \<longleftrightarrow>
     b = b' \<and> fold_ip (sock_ip s) = fold_ip (sock_ip s') \<and> sock_port s = sock_port s'"
  by (auto simp: nonce_message_def Let_def NONCE_FAMILY_IPV4_def NONCE_FAMILY_IPV6_def split: ip_addr.splits)

text \<open>A nonce as the issuer makes it: bucket, then tag.\<close>

definition genuine :: "mac \<Rightarrow> nonce_issuer \<Rightarrow> u32 \<Rightarrow> socket_addr \<Rightarrow> bytes" where
  "genuine hmac issuer b src = be32 b @ take 16 (hmac (secret issuer) (nonce_message b src))"

lemma issue_eq: "hmac_sha256_output hmac \<Longrightarrow> issue hmac issuer src now = Some (genuine hmac issuer (bucket_of now) src)"
  by (simp add: issue_def genuine_def tag_for_some Let_def)

lemma genuine_length: "hmac_sha256_output hmac \<Longrightarrow> length (genuine hmac issuer b src) = 20"
  by (simp add: genuine_def hmac_sha256_output_def)

definition age :: "u32 \<Rightarrow> u64 \<Rightarrow> nonce_check" where
  "age b now = (if b = bucket_of now \<or> b = bucket_of now - 1 then Fresh else Stale)"

lemma length_20_split:
  assumes "length d = 20"
  obtains b tag where "d = be32 b @ tag" "length tag = 16"
proof -
  from assms obtain w x y z tag where "d = w # x # y # z # tag"
    by (auto simp: length_Suc_conv eval_nat_numeral)
  with assms have "d = be32 (u32_of_be w x y z) @ tag" "length tag = 16" by simp_all
  then show ?thesis by (rule that)
qed

lemma nonce_check_eq:
  assumes "hmac_sha256_output hmac"
  shows "check_nonce hmac issuer v src now =
    Some (case base64url_decode v of
        None \<Rightarrow> Invalid
      | Some d \<Rightarrow> if \<exists>b. d = genuine hmac issuer b src then age (the (read_be32 d 0)) now else Invalid)"
proof (cases "base64url_decode v")
  case None
  then show ?thesis by (simp add: check_nonce_def)
next
  case (Some d)
  show ?thesis
  proof (cases "length d = 20")
    case False
    then show ?thesis
      using genuine_length [OF assms] by (auto simp: check_nonce_def Some NONCE_LEN_def)
  next
    case True
    then obtain b tag where d: "d = be32 b @ tag" "length tag = 16" by (rule length_20_split)
    have "slice d 4 20 = Some tag" using d by (simp add: slice_def)
    then show ?thesis
      using d by (auto simp: check_nonce_def Some NONCE_LEN_def read_be32_be32 tag_for_some [OF assms]
          constant_time_eq_iff Let_def age_def genuine_def)
  qed
qed

lemma nonce_check_genuine:
  assumes "hmac_sha256_output hmac" and "base64url_decode v = Some (genuine hmac issuer b src)"
  shows "check_nonce hmac issuer v src now = Some (age b now)"
  using assms by (auto simp: nonce_check_eq) (simp add: genuine_def read_be32_be32)

lemma genuine_inject:
  "genuine hmac issuer b src = genuine hmac issuer b' src' \<longleftrightarrow>
     b = b' \<and> take 16 (hmac (secret issuer) (nonce_message b src)) = take 16 (hmac (secret issuer) (nonce_message b src'))"
  by (auto simp: genuine_def)

lemma genuine_same_source:
  "fold_ip (sock_ip s) = fold_ip (sock_ip s') \<Longrightarrow> sock_port s = sock_port s' \<Longrightarrow>
   genuine hmac issuer b s = genuine hmac issuer b s'"
  using nonce_message_inject [of b s b s'] by (simp add: genuine_def)

section \<open>The last character\<close>

text \<open>
  The last of the 27 characters carries four bits of the nonce and two bits the decoder drops.
\<close>

lemma decode_encode_append:
  "length xs mod 3 = 0 \<Longrightarrow>
   base64url_decode (as_bytes (base64url_encode xs) @ g) = map_option ((@) xs) (base64url_decode g)"
proof (induction xs rule: length_induct)
  case (1 xs)
  show ?case
  proof (cases "xs = []")
    case True
    then show ?thesis by (simp add: as_bytes_def option.map_ident)
  next
    case False
    then have "3 \<le> length xs" using 1(2) length_0_conv [of xs] by presburger
    then have g: "take 3 xs \<noteq> []" "length (take 3 xs) \<le> 3" "length (take 3 xs) = 3" by auto
    then have e: "length (as_bytes (encode_chunk (take 3 xs))) = 4"
      using length_encode_chunk [OF g(1,2)] by simp
    have "(length xs - 3) mod 3 = 0" using 1(2) \<open>3 \<le> length xs\<close> by presburger
    then have IH: "base64url_decode (as_bytes (base64url_encode (drop 3 xs)) @ g)
        = map_option ((@) (drop 3 xs)) (base64url_decode g)"
      using 1(1) False by simp
    have "chunks 4 (as_bytes (encode_chunk (take 3 xs)) @ r) = as_bytes (encode_chunk (take 3 xs)) # chunks 4 r" for r
      by (rule chunks_cons [OF e]) simp
    moreover have "collect_values (as_bytes (encode_chunk (take 3 xs))) \<bind> decode_group = Some (take 3 xs)"
      using collect_values_encode_chunk [OF g(1,2)] decode_group_sextets [OF g(1,2)] by simp
    ultimately show ?thesis
      using IH by (cases "base64url_decode g")
        (simp_all add: encode_cons [OF False] base64url_decode_def decode_groups_cons del: decode_groups.simps(2))
  qed
qed

lemma u8_eqI: "(\<And>n. n \<in> {0, 1, 2, 3, 4, 5, 6, 7} \<Longrightarrow> bit a n = bit b n) \<Longrightarrow> a = b" for a b :: u8
proof (rule bit_word_eqI)
  fix n
  assume eq: "\<And>n. n \<in> {0, 1, 2, 3, 4, 5, 6, 7} \<Longrightarrow> bit a n = bit b n" and "n < LENGTH(8)"
  then have "n = 0 \<or> n = 1 \<or> n = 2 \<or> n = 3 \<or> n = 4 \<or> n = 5 \<or> n = 6 \<or> n = 7"
    by (simp add: numeral_eq_Suc) linarith
  then show "bit a n = bit b n" by (intro eq) blast
qed

lemma encode_append:
  "length xs mod 3 = 0 \<Longrightarrow> base64url_encode (xs @ ys) = base64url_encode xs @ base64url_encode ys"
proof (induction xs rule: length_induct)
  case (1 xs)
  show ?case
  proof (cases "xs = []")
    case False
    then have "3 \<le> length xs" using 1(2) length_0_conv [of xs] by presburger
    moreover from this have "(length xs - 3) mod 3 = 0" using 1(2) by presburger
    ultimately show ?thesis
      using 1(1) False by (simp add: encode_cons)
  qed simp
qed

lemma length_2_conv: "length xs = 2 \<longleftrightarrow> (\<exists>a b. xs = [a, b])"
  by (auto simp: length_Suc_conv numeral_2_eq_2)

definition sibling_chunk :: "u8 \<Rightarrow> u8 \<Rightarrow> string" where
  "sibling_chunk a b =
     [B64URL_ALPHABET ! unat (drop_bit 18 (join24 a b 0) AND 0x3f), B64URL_ALPHABET ! unat (drop_bit 12 (join24 a b 0) AND 0x3f),
      B64URL_ALPHABET ! unat ((drop_bit 6 (join24 a b 0) OR 1) AND 0x3f)]"

lemma sibling_decodes: "base64url_decode (as_bytes (sibling_chunk a b)) = Some [a, b]"
proof -
  let ?n = "join24 a b 0"
  have "collect_values (as_bytes (sibling_chunk a b)) = Some [ucast (drop_bit 18 ?n AND 0x3f),
      ucast (drop_bit 12 ?n AND 0x3f), ucast ((drop_bit 6 ?n OR 1) AND 0x3f)]"
    by (simp add: sibling_chunk_def as_bytes_def char_value_alphabet)
  moreover have "decode_group [ucast (drop_bit 18 ?n AND 0x3f), ucast (drop_bit 12 ?n AND 0x3f),
      ucast ((drop_bit 6 ?n OR 1) AND 0x3f)] = Some [a, b]"
    by (auto simp: decode_group_def Let_def join24_def mask_3f bit_simps intro!: u8_eqI)
  ultimately show ?thesis
    by (simp add: base64url_decode_def chunks_last [of _ 4] sibling_chunk_def as_bytes_def)
qed

lemma sibling_differs: "sibling_chunk a b \<noteq> encode_chunk [a, b]"
proof
  let ?n = "join24 a b 0"
  assume "sibling_chunk a b = encode_chunk [a, b]"
  then have "B64URL_ALPHABET ! unat ((drop_bit 6 ?n OR 1) AND 0x3f) = B64URL_ALPHABET ! unat (drop_bit 6 ?n AND 0x3f)"
    by (simp add: sibling_chunk_def encode_chunk_def join24_def)
  then have "ucast ((drop_bit 6 ?n OR 1) AND 0x3f) = (ucast (drop_bit 6 ?n AND 0x3f) :: u8)"
    by (metis char_value_alphabet option.inject)
  then have "bit (ucast ((drop_bit 6 ?n OR 1) AND 0x3f) :: u8) 0 = bit (ucast (drop_bit 6 ?n AND 0x3f) :: u8) 0"
    by simp
  then show False by (simp add: join24_def mask_3f bit_simps)
qed

section \<open>Properties\<close>

lemma genuine_text_decodes: "base64url_decode (as_bytes (base64url_encode (genuine hmac issuer b src))) = Some (genuine hmac issuer b src)"
  by (rule decode_encode)

text \<open>C17: the check, completely. It never panics; a value is \<open>Invalid\<close> unless it decodes to the very
  nonce this issuer makes for this source and some bucket, and only then is the bucket looked at:
  \<open>Fresh\<close> in the bucket of the check or the one before, \<open>Stale\<close> otherwise. A forged value is
  never merely stale.\<close>
theorem nonce_check_spec:
  assumes "hmac_sha256_output hmac"
  shows "check_nonce hmac issuer v src now \<noteq> None
    \<and> (check_nonce hmac issuer v src now = Some Fresh \<longleftrightarrow>
        (\<exists>b. base64url_decode v = Some (genuine hmac issuer b src) \<and> (b = bucket_of now \<or> b + 1 = bucket_of now)))
    \<and> (check_nonce hmac issuer v src now = Some Stale \<longleftrightarrow>
        (\<exists>b. base64url_decode v = Some (genuine hmac issuer b src) \<and> \<not> (b = bucket_of now \<or> b + 1 = bucket_of now)))"
proof (cases "\<exists>b. base64url_decode v = Some (genuine hmac issuer b src)")
  case True
  then obtain b where b: "base64url_decode v = Some (genuine hmac issuer b src)" by blast
  have pred: "b = bucket_of now - 1 \<longleftrightarrow> b + 1 = bucket_of now" by (auto simp: algebra_simps)
  show ?thesis
    by (simp add: nonce_check_genuine [OF assms b] b age_def pred genuine_inject)
next
  case False
  then show ?thesis
    by (auto simp: nonce_check_eq [OF assms] split: option.splits)
qed

definition example_hmac :: mac where
  "example_hmac key msg = take 32 (map2 (XOR) (msg @ replicate 32 0) (key @ replicate 32 0))"

lemma example_hmac_output [simp]: "hmac_sha256_output example_hmac"
  by (simp add: hmac_sha256_output_def example_hmac_def)

theorem nonce_check_spec_witness:
  "check_nonce example_hmac (from_secret (replicate 32 5)) [] (SockV4 (Ipv4 8 8 8 8) 9) 1000 \<noteq> None"
  using nonce_check_spec [OF example_hmac_output, of "from_secret (replicate 32 5)" "[]" "SockV4 (Ipv4 8 8 8 8) 9" 1000]
  by blast

lemma bucket_of_unat: "unat now div 60 < 2 ^ 32 \<Longrightarrow> unat (bucket_of now) = unat now div 60"
  by (simp add: bucket_of_def NONCE_BUCKET_SECS_def unat_div unsigned_ucast_eq take_bit_nat_eq_self)

lemma nonce_age:
  assumes "hmac_sha256_output hmac" and "issue hmac issuer s t0 = Some nonce"
    and "fold_ip (sock_ip s) = fold_ip (sock_ip s')" and "sock_port s = sock_port s'"
    and "t0 \<le> t" and "unat t div 60 < 2 ^ 32"
  shows "(unat t - unat t0 \<le> 60 \<longrightarrow>
       check_nonce hmac issuer (as_bytes (base64url_encode nonce)) s' t = Some Fresh)
    \<and> (120 \<le> unat t - unat t0 \<longrightarrow>
       check_nonce hmac issuer (as_bytes (base64url_encode nonce)) s' t = Some Stale)
    \<and> check_nonce hmac issuer (as_bytes (base64url_encode nonce)) s' t \<noteq> Some Invalid"
proof -
  let ?b = "bucket_of t0"
  have "nonce = genuine hmac issuer ?b s'"
    using assms(2) genuine_same_source [OF assms(3,4)] by (simp add: issue_eq [OF assms(1)])
  then have check: "check_nonce hmac issuer (as_bytes (base64url_encode nonce)) s' t = Some (age ?b t)"
    using genuine_text_decodes by (simp add: nonce_check_genuine [OF assms(1)])
  have le: "unat t0 \<le> unat t" using assms(5) by (simp add: word_le_nat_alt)
  then have "unat t0 div 60 \<le> unat t div 60" by (rule div_le_mono)
  then have b: "unat ?b = unat t0 div 60" "unat (bucket_of t) = unat t div 60"
    using assms(6) by (simp_all add: bucket_of_unat)
  have fresh: "age ?b t = Fresh \<longleftrightarrow> unat t0 div 60 = unat t div 60 \<or> unat t0 div 60 + 1 = unat t div 60"
  proof -
    have "?b \<le> bucket_of t" using b \<open>unat t0 div 60 \<le> unat t div 60\<close> by (simp add: word_le_nat_alt)
    then have "bucket_of t - ?b = 1 \<longleftrightarrow> unat t0 div 60 + 1 = unat t div 60"
      using b by (auto simp: word_unat_eq_iff unat_sub)
    moreover have "?b + 1 = bucket_of t \<longleftrightarrow> bucket_of t - ?b = 1" by (auto simp: algebra_simps)
    ultimately have "?b + 1 = bucket_of t \<longleftrightarrow> unat t0 div 60 + 1 = unat t div 60" by simp
    moreover have "?b = bucket_of t - 1 \<longleftrightarrow> ?b + 1 = bucket_of t" by (auto simp: algebra_simps)
    moreover have "?b = bucket_of t \<longleftrightarrow> unat t0 div 60 = unat t div 60" using b by (auto simp: word_unat_eq_iff)
    ultimately show ?thesis by (simp add: age_def)
  qed
  have "unat t - unat t0 \<le> 60 \<Longrightarrow> unat t0 div 60 = unat t div 60 \<or> unat t0 div 60 + 1 = unat t div 60"
    and "120 \<le> unat t - unat t0 \<Longrightarrow> \<not> (unat t0 div 60 = unat t div 60 \<or> unat t0 div 60 + 1 = unat t div 60)"
    using le by linarith+
  moreover have "age ?b t = Fresh \<or> age ?b t = Stale" by (simp add: age_def)
  ultimately show ?thesis unfolding check fresh [symmetric] by auto
qed

lemma nonce_fresh_within_minute:
  assumes "hmac_sha256_output hmac" and "issue hmac issuer s t0 = Some nonce"
    and "fold_ip (sock_ip s) = fold_ip (sock_ip s')" and "sock_port s = sock_port s'"
    and "t0 \<le> t" and "unat t div 60 < 2 ^ 32" and "unat t - unat t0 \<le> 60"
  shows "check_nonce hmac issuer (as_bytes (base64url_encode nonce)) s' t = Some Fresh"
  using nonce_age [OF assms(1-6)] assms(7) by blast

text \<open>C33: a nonce is good for one to two minutes. Checked at the same source (its folded address and
  port), the nonce issued at \<open>t0\<close> is \<open>Fresh\<close> up to 60 seconds later and \<open>Stale\<close> from 120 seconds
  on, never \<open>Invalid\<close>, as long as the clock's bucket number fits 32 bits (year 10136).\<close>
theorem nonce_lifetime:
  assumes "hmac_sha256_output hmac" and "issue hmac issuer s t0 = Some nonce"
    and "fold_ip (sock_ip s) = fold_ip (sock_ip s')" and "sock_port s = sock_port s'"
    and "t0 \<le> t" and "unat t div 60 < 2 ^ 32"
  shows "(unat t - unat t0 \<le> 60 \<longrightarrow>
       check_nonce hmac issuer (as_bytes (base64url_encode nonce)) s' t = Some Fresh)
    \<and> (120 \<le> unat t - unat t0 \<longrightarrow>
       check_nonce hmac issuer (as_bytes (base64url_encode nonce)) s' t = Some Stale)
    \<and> check_nonce hmac issuer (as_bytes (base64url_encode nonce)) s' t \<noteq> Some Invalid"
  by (rule nonce_age [OF assms])

theorem nonce_lifetime_witness:
  "check_nonce example_hmac (from_secret (replicate 32 5))
     (as_bytes (base64url_encode (the (issue example_hmac (from_secret (replicate 32 5)) (SockV4 (Ipv4 8 8 8 8) 9) 1000))))
     (SockV6 (Ipv6 0 0 0 0 0 0xffff 0x808 0x808) 9 0 0) 1050 \<noteq> Some Invalid"
  using nonce_lifetime [OF example_hmac_output, of "from_secret (replicate 32 5)" "SockV4 (Ipv4 8 8 8 8) 9" 1000
      "the (issue example_hmac (from_secret (replicate 32 5)) (SockV4 (Ipv4 8 8 8 8) 9) 1000)"
      "SockV6 (Ipv6 0 0 0 0 0 0xffff 0x808 0x808) 9 0 0" 1050]
  by (simp add: issue_eq word_le_nat_alt)

text \<open>C34: a nonce is bound to its source. If one value passes the tag check at two sources, the two
  are the same folded address and port, or the value itself shows how the MAC was broken: for the one
  bucket written in it, the two sources give two different messages, and the issuer's MAC cuts both to
  the 16 bytes that follow the bucket. Nothing else lets a nonce move between sources. (That some two
  messages collide is no news; that these two do is what a forger would have to arrange.)\<close>
theorem nonce_bound_to_source:
  assumes "hmac_sha256_output hmac"
    and "check_nonce hmac issuer v s now = Some c" and "c \<noteq> Invalid"
    and "check_nonce hmac issuer v s' now' = Some c'" and "c' \<noteq> Invalid"
  shows "fold_ip (sock_ip s) = fold_ip (sock_ip s') \<and> sock_port s = sock_port s'
    \<or> (\<exists>b tag. base64url_decode v = Some (be32 b @ tag)
         \<and> nonce_message b s \<noteq> nonce_message b s'
         \<and> take 16 (hmac (secret issuer) (nonce_message b s)) = tag
         \<and> take 16 (hmac (secret issuer) (nonce_message b s')) = tag)"
proof -
  have "\<exists>b. base64url_decode v = Some (genuine hmac issuer b t)"
    if "check_nonce hmac issuer v t n = Some r" and "r \<noteq> Invalid" for t n r
    using that by (auto simp: nonce_check_eq [OF assms(1)] split: option.splits if_splits)
  from this [OF assms(2,3)] this [OF assms(4,5)] obtain b b' where
    v: "base64url_decode v = Some (genuine hmac issuer b s)" "base64url_decode v = Some (genuine hmac issuer b' s')" by blast
  then have same: "take 16 (hmac (secret issuer) (nonce_message b s)) = take 16 (hmac (secret issuer) (nonce_message b s'))"
    by (auto simp: genuine_inject)
  show ?thesis
  proof (cases "nonce_message b s = nonce_message b s'")
    case True
    then show ?thesis by (simp add: nonce_message_inject)
  next
    case False
    with v(1) same show ?thesis
      by (intro disjI2 exI [of _ b] exI [of _ "take 16 (hmac (secret issuer) (nonce_message b s))"])
        (simp add: genuine_def)
  qed
qed

text \<open>A nonce checked at the two spellings of one endpoint: there is one message, so the first alternative is left.\<close>

theorem nonce_bound_to_source_witness:
  "fold_ip (IpV4 (Ipv4 8 8 8 8)) = fold_ip (IpV6 (Ipv6 0 0 0 0 0 0xffff 0x808 0x808)) \<and> (9 :: u16) = 9"
proof -
  let ?s = "SockV4 (Ipv4 8 8 8 8) 9" and ?s' = "SockV6 (Ipv6 0 0 0 0 0 0xffff 0x808 0x808) 9 0 0"
  let ?i = "from_secret (replicate 32 5)"
  have "genuine example_hmac ?i 3 ?s = genuine example_hmac ?i 3 ?s'"
    by (rule genuine_same_source) simp_all
  then have "check_nonce example_hmac ?i (as_bytes (base64url_encode (genuine example_hmac ?i 3 ?s))) ?s 200 = Some (age 3 200)"
    "check_nonce example_hmac ?i (as_bytes (base64url_encode (genuine example_hmac ?i 3 ?s))) ?s' 200 = Some (age 3 200)"
    by (simp_all add: nonce_check_genuine genuine_text_decodes)
  moreover have "nonce_message b ?s = nonce_message b ?s'" for b by (simp add: nonce_message_inject)
  ultimately show ?thesis
    using nonce_bound_to_source [OF example_hmac_output, of ?i _ ?s 200 _ ?s' 200]
    by (simp add: age_def)
qed

text \<open>A nonce is not one text. Replacing the last of the 27 characters of any issued nonce by
  another one can leave the value \<open>Fresh\<close>, because base64url decoding drops the last two bits of the
  final group; the test list of SPEC.md section 11 and the doc comment take a changed byte to be
  \<open>Invalid\<close>.\<close>
theorem nonce_text_malleable:
  assumes "hmac_sha256_output hmac" and "issue hmac issuer s now = Some nonce"
  shows "\<exists>text. text \<noteq> as_bytes (base64url_encode nonce) \<and> length text = 27
    \<and> take 26 text = take 26 (as_bytes (base64url_encode nonce))
    \<and> check_nonce hmac issuer text s now = Some Fresh"
proof -
  let ?g = "genuine hmac issuer (bucket_of now) s"
  have nonce: "nonce = ?g" using assms(2) by (simp add: issue_eq [OF assms(1)])
  have len: "length ?g = 20" using genuine_length [OF assms(1)] .
  have "length (take 18 ?g) = 18" "length (drop 18 ?g) = 2" using len by simp_all
  then obtain xs a b where g: "?g = xs @ [a, b]" and xs: "length xs = 18"
    by (metis append_take_drop_id length_2_conv)
  let ?t = "as_bytes (base64url_encode xs) @ as_bytes (sibling_chunk a b)"
  have enc: "base64url_encode ?g = base64url_encode xs @ encode_chunk [a, b]"
    using xs encode_append [of xs "[a, b]"] encode_cons [of "[a, b]"] by (simp add: g)
  have xlen: "length (base64url_encode xs) = 24" using xs by (simp add: length_base64url_encode)
  have "base64url_decode ?t = Some ?g"
    using xs by (simp add: decode_encode_append sibling_decodes g)
  then have "check_nonce hmac issuer ?t s now = Some Fresh"
    by (simp add: nonce_check_genuine [OF assms(1)] age_def)
  moreover have "?t \<noteq> as_bytes (base64url_encode nonce)"
    using sibling_differs [of a b] by (simp add: nonce enc)
  moreover have "length ?t = 27" "take 26 ?t = take 26 (as_bytes (base64url_encode nonce))"
    by (simp_all add: nonce enc xlen sibling_chunk_def encode_chunk_def join24_def as_bytes_def)
  ultimately show ?thesis by blast
qed

theorem nonce_text_malleable_witness:
  "\<exists>text. text \<noteq> as_bytes (base64url_encode (genuine example_hmac (from_secret (replicate 32 5)) 16 (SockV4 (Ipv4 8 8 8 8) 9)))
    \<and> check_nonce example_hmac (from_secret (replicate 32 5)) text (SockV4 (Ipv4 8 8 8 8) 9) 1000 = Some Fresh"
proof -
  have "bucket_of 1000 = 16" by (simp add: bucket_of_def NONCE_BUCKET_SECS_def)
  then have "issue example_hmac (from_secret (replicate 32 5)) (SockV4 (Ipv4 8 8 8 8) 9) 1000
      = Some (genuine example_hmac (from_secret (replicate 32 5)) 16 (SockV4 (Ipv4 8 8 8 8) 9))"
    by (simp add: issue_eq)
  from nonce_text_malleable [OF example_hmac_output this] show ?thesis by blast
qed

text \<open>\<open>Stale\<close> does not mean old. The doc comment of \<open>NonceCheck\<close> reads it as a bucket older than
  the previous one; a genuine nonce whose bucket is ahead of the clock is \<open>Stale\<close> as well.\<close>
theorem future_nonce_is_stale:
  assumes "hmac_sha256_output hmac"
  shows "check_nonce hmac issuer (as_bytes (base64url_encode (the (issue hmac issuer s 180)))) s 120 = Some Stale"
proof -
  have "age (bucket_of 180) 120 = Stale" by (simp add: age_def bucket_of_def NONCE_BUCKET_SECS_def)
  then show ?thesis
    using assms by (simp add: issue_eq nonce_check_genuine genuine_text_decodes)
qed

theorem future_nonce_is_stale_witness:
  "check_nonce example_hmac (from_secret (replicate 32 5))
     (as_bytes (base64url_encode (the (issue example_hmac (from_secret (replicate 32 5)) (SockV4 (Ipv4 8 8 8 8) 9) 180))))
     (SockV4 (Ipv4 8 8 8 8) 9) 120 = Some Stale"
  by (rule future_nonce_is_stale) simp

end
