(* ===== verification/Signature.thy ===== *)
theory Signature
  imports Nonce
begin

text \<open>
  The signature, \<open>src/credential/signature.rs\<close>, with the classified request it is about
  (\<open>RequestKind\<close> of \<open>src/credential/request.rs\<close>). The ECDSA verifier is \<open>ring\<close>'s and
  the signer is the consumer's: the arguments \<open>ecdsa\<close> (public point, message, signature) and a
  record \<open>stun_signer\<close>.
\<close>

section \<open>The code\<close>

datatype request_kind =
    Bare
  | Identity bytes
  | Signed bytes bytes bytes

definition SIG_DOMAIN_TAG :: bytes where "SIG_DOMAIN_TAG = as_bytes ''dig:stun:v1''"

definition signing_message :: "transaction_id \<Rightarrow> bytes \<Rightarrow> bytes \<Rightarrow> bytes" where
  "signing_message txid nonce_attr_value spki_der =
     (let message = [];
          message = message @ SIG_DOMAIN_TAG;
          message = message @ [CREDENTIAL_VERSION];
          message = message @ txid_bytes txid;
          message = message @ be16 (of_nat (length nonce_attr_value));
          message = message @ nonce_attr_value
      in message @ spki_der)"

record verified_identity =
  verified_spki :: bytes

text \<open>\<open>ring\<close>'s verifier, and the trait the consumer implements.\<close>

type_synonym verifier = "bytes \<Rightarrow> bytes \<Rightarrow> bytes \<Rightarrow> bool"

record stun_signer =
  spki_der :: bytes
  sign :: "bytes \<Rightarrow> bytes"

definition verify_signed_request ::
  "verifier \<Rightarrow> transaction_id \<Rightarrow> request_kind \<Rightarrow> (credential_error, verified_identity) outcome" where
  "verify_signed_request ecdsa txid kind =
     (case kind of
        Signed spki nonce signature \<Rightarrow>
          if \<not> is_valid_spki_der spki then Some (Inl Malformed)
          else do {
            let message = signing_message txid nonce spki;
            point \<leftarrow> slice spki 26 P256_SPKI_LEN;
            if \<not> ecdsa point message signature then Some (Inl BadSignature)
            else if length spki \<noteq> P256_SPKI_LEN then None
            else Some (Inr \<lparr>verified_spki = spki\<rparr>) }
      | _ \<Rightarrow> Some (Inl Malformed))"

section \<open>Lemmas\<close>

lemma domain_tags: "length SIG_DOMAIN_TAG = 11" "length NONCE_DOMAIN_TAG = 17"
    "SIG_DOMAIN_TAG ! 9 = 0x76" "NONCE_DOMAIN_TAG ! 9 = 0x6e"
  by (simp_all add: SIG_DOMAIN_TAG_def NONCE_DOMAIN_TAG_def as_bytes_def)

lemma signing_message_eq:
  "signing_message t n s =
     SIG_DOMAIN_TAG @ CREDENTIAL_VERSION # txid_bytes t @ be16 (of_nat (length n)) @ n @ s"
  by (simp add: signing_message_def)

lemma of_nat_length_inject:
  "m < 2 ^ 16 \<Longrightarrow> n < 2 ^ 16 \<Longrightarrow> (of_nat m :: u16) = of_nat n \<longleftrightarrow> m = n"
  by (auto simp: word_unat_eq_iff unsigned_of_nat take_bit_nat_eq_self)

text \<open>The verdict of the verifier on a signed request.\<close>

definition signature_valid :: "verifier \<Rightarrow> transaction_id \<Rightarrow> bytes \<Rightarrow> bytes \<Rightarrow> bytes \<Rightarrow> bool" where
  "signature_valid ecdsa t spki nonce sig \<longleftrightarrow> ecdsa (drop 26 spki) (signing_message t nonce spki) sig"

lemma verify_signed:
  "verify_signed_request ecdsa t (Signed spki nonce sig) =
     Some (if \<not> is_valid_spki_der spki then Inl Malformed
           else if signature_valid ecdsa t spki nonce sig then Inr \<lparr>verified_spki = spki\<rparr>
           else Inl BadSignature)"
  by (auto simp: verify_signed_request_def signature_valid_def slice_def P256_SPKI_LEN_def Let_def
      dest: spki_length)

lemma signing_message_inject:
  "length n < 2 ^ 16 \<Longrightarrow> length n' < 2 ^ 16 \<Longrightarrow>
   signing_message t n s = signing_message t' n' s' \<longleftrightarrow> t = t' \<and> n = n' \<and> s = s'"
  using of_nat_length_inject [of "length n" "length n'"] by (auto simp: signing_message_eq)

section \<open>Properties\<close>

text \<open>C35: the preimage identifies the fields. For nonces that fit an attribute, two preimages are equal
  only when transaction id, nonce and key are; and no preimage of a signature is ever a message the
  nonce MAC is computed over, whatever the fields.\<close>
theorem signing_message_injective:
  assumes "length n < 2 ^ 16" and "length n' < 2 ^ 16"
  shows "(signing_message t n s = signing_message t' n' s' \<longleftrightarrow> t = t' \<and> n = n' \<and> s = s')
    \<and> signing_message t n s \<noteq> nonce_message b src"
proof -
  have "signing_message t n s = signing_message t' n' s' \<longleftrightarrow> t = t' \<and> n = n' \<and> s = s'"
    by (rule signing_message_inject [OF assms])
  moreover have "signing_message t n s ! 9 = 0x76"
    by (simp add: signing_message_eq nth_append domain_tags)
  moreover have "nonce_message b src ! 9 = 0x6e"
    by (simp add: nonce_message_def Let_def nth_append domain_tags split: ip_addr.split)
  ultimately show ?thesis by auto
qed

theorem signing_message_injective_witness:
  "signing_message (Txid (replicate 12 1)) [65] example_spki \<noteq> signing_message (Txid (replicate 12 1)) [66] example_spki"
  using signing_message_injective [of "[65]" "[66]" "Txid (replicate 12 1)" example_spki "Txid (replicate 12 1)" example_spki]
  by simp

text \<open>Verification accepts exactly what it should. It never panics, whatever the public fields of
  the request hold; it returns an identity only for a signed request whose key has the required shape
  and whose signature the verifier accepts, under the 65-byte point of that very key, on the preimage
  of this transaction id, this nonce and this key; and the identity is that key.\<close>
theorem verify_signed_request_iff:
  "verify_signed_request ecdsa t kind \<noteq> None
   \<and> (verify_signed_request ecdsa t kind = Some (Inr ident) \<longleftrightarrow>
       (\<exists>spki nonce sig. kind = Signed spki nonce sig \<and> is_valid_spki_der spki
          \<and> length (drop 26 spki) = 65 \<and> ecdsa (drop 26 spki) (signing_message t nonce spki) sig
          \<and> ident = \<lparr>verified_spki = spki\<rparr>))"
proof (cases kind)
  case (Signed spki nonce sig)
  then show ?thesis
    by (auto simp: verify_signed signature_valid_def dest: spki_length)
qed (auto simp: verify_signed_request_def)

end
