(* ===== verification/Request.thy ===== *)
theory Request
  imports Signature
begin

text \<open>
  The request shape, \<open>src/credential/request.rs\<close>: the classifier a server runs on every datagram
  and the two encoders of the client. The attribute walk is an instance of the attribute-loop
  contract; its result is shown to be the order-free rule \<open>classify_rule\<close>.
  \<open>debug\<close> says whether \<open>debug_assert!\<close> is compiled in.
\<close>

section \<open>The classifier\<close>

record attrs_state =
  identity :: "bytes option"
  nonce :: "bytes option"
  signature :: "bytes option"
  signature_seen :: bool

definition no_attrs :: attrs_state where
  "no_attrs = \<lparr>identity = None, nonce = None, signature = None, signature_seen = False\<rparr>"

definition combine :: "attrs_state \<Rightarrow> credential_error + request_kind" where
  "combine s =
     (case (identity s, nonce s, signature s) of
        (None, None, None) \<Rightarrow> Inr Bare
      | (Some spki, None, None) \<Rightarrow> Inr (Identity spki)
      | (Some spki, Some nce, Some sig) \<Rightarrow> Inr (Signed spki nce sig)
      | _ \<Rightarrow> Inl Malformed)"

text \<open>The \<open>match attr_type\<close> of the loop: \<open>None\<close> is the early \<open>return Err(Malformed)\<close>.\<close>

definition on_request_attr :: "u16 \<Rightarrow> bytes \<Rightarrow> attrs_state \<Rightarrow> attrs_state option" where
  "on_request_attr attr_type v s =
     (if attr_type = ATTR_DIG_IDENTITY then
        (if identity s \<noteq> None then None
         else if length v \<noteq> 1 + P256_SPKI_LEN \<or> v ! 0 \<noteq> CREDENTIAL_VERSION \<or> \<not> is_valid_spki_der (drop 1 v)
         then None
         else Some (s\<lparr>identity := Some (drop 1 v)\<rparr>))
      else if attr_type = ATTR_NONCE then
        (if nonce s \<noteq> None then None else Some (s\<lparr>nonce := Some v\<rparr>))
      else if attr_type = ATTR_DIG_SIGNATURE then
        (if v = [] \<or> v ! 0 \<noteq> CREDENTIAL_VERSION \<or> \<not> is_valid_signature_der_len (drop 1 v) then None
         else Some (s\<lparr>signature := Some (drop 1 v), signature_seen := True\<rparr>))
      else Some s)"

function classify_loop ::
  "bytes \<Rightarrow> nat \<Rightarrow> nat \<Rightarrow> attrs_state \<Rightarrow> (credential_error, request_kind) outcome" where
  "classify_loop area end off s =
     (if off + 4 \<le> end then
        (if signature_seen s then Some (Inl Malformed)
         else do {
           attr_type \<leftarrow> read_be16 area off;
           attr_len \<leftarrow> map_option unat (read_be16 area (off + 2));
           let val_start = off + 4;
           let val_end = val_start + attr_len;
           if end < val_end then Some (Inl Malformed)
           else do {
             v \<leftarrow> slice area val_start val_end;
             (case on_request_attr attr_type v s of
                None \<Rightarrow> Some (Inl Malformed)
              | Some s \<Rightarrow> classify_loop area end (val_end + (4 - attr_len mod 4) mod 4) s) } })
      else Some (combine s))"
  by pat_completeness auto
termination
  by (relation "measure (\<lambda>(area, end, off, s). end - off)") auto

declare classify_loop.simps [simp del]

definition classify_attrs :: "bytes \<Rightarrow> (credential_error, request_kind) outcome" where
  "classify_attrs area = classify_loop area (length area) 0 no_attrs"

definition classify_request :: "bytes \<Rightarrow> (credential_error, transaction_id \<times> request_kind) outcome" where
  "classify_request datagram =
     (case parse_binding_request datagram of
        None \<Rightarrow> None
      | Some (Inl e) \<Rightarrow> Some (Inl (Stun e))
      | Some (Inr txid) \<Rightarrow> do {
          msg_len \<leftarrow> map_option unat (read_be16 datagram 2);
          area \<leftarrow> slice datagram 20 (20 + msg_len);
          kind \<leftarrow> classify_attrs area;
          Some (case kind of Inl e \<Rightarrow> Inl e | Inr kind \<Rightarrow> Inr (txid, kind)) })"

section \<open>The encoders\<close>

definition encode_identity_request :: "bool \<Rightarrow> transaction_id \<Rightarrow> bytes \<Rightarrow> bytes option" where
  "encode_identity_request debug txid spki =
     (if debug \<and> \<not> is_valid_spki_der spki then None
      else
        let identity_value = CREDENTIAL_VERSION # spki;
            attrs = write_attr [] ATTR_DIG_IDENTITY identity_value;
            msg = write_header [] BINDING_REQUEST (of_nat (length attrs)) txid
        in Some (msg @ attrs))"

definition encode_signed_request :: "transaction_id \<Rightarrow> bytes \<Rightarrow> stun_signer \<Rightarrow> bytes" where
  "encode_signed_request txid nonce_attr_value signer =
     (let spki = spki_der signer;
          message = signing_message txid nonce_attr_value spki;
          sig_der = sign signer message;
          identity_value = CREDENTIAL_VERSION # spki;
          signature_value = CREDENTIAL_VERSION # sig_der;
          attrs = write_attr [] ATTR_DIG_IDENTITY identity_value;
          attrs = write_attr attrs ATTR_NONCE nonce_attr_value;
          attrs = write_attr attrs ATTR_DIG_SIGNATURE signature_value;
          msg = write_header [] BINDING_REQUEST (of_nat (length attrs)) txid
      in msg @ attrs)"

section \<open>The loop meets the contract\<close>

definition request_pre :: "attrs_state \<Rightarrow> (credential_error + request_kind) option" where
  "request_pre s = (if signature_seen s then Some (Inl Malformed) else None)"

definition request_step ::
  "u16 \<Rightarrow> bytes \<Rightarrow> attrs_state \<Rightarrow> (credential_error, request_kind) outcome + attrs_state" where
  "request_step t v s = (case on_request_attr t v s of None \<Rightarrow> Inl (Some (Inl Malformed)) | Some s' \<Rightarrow> Inr s')"

interpretation req: tlv_loop classify_loop request_pre request_step "\<lambda>_. Some (Inl Malformed)" "\<lambda>s. Some (combine s)"
proof
  fix buf "end" off s
  show "classify_loop buf end off s =
    (if off + 4 \<le> end then
       (case request_pre s of
          Some r \<Rightarrow> Some r
        | None \<Rightarrow> do {
            ty \<leftarrow> read_be16 buf off;
            len \<leftarrow> read_be16 buf (off + 2);
            if end < off + 4 + unat len then Some (Inl Malformed)
            else do {
              v \<leftarrow> slice buf (off + 4) (off + 4 + unat len);
              (case request_step ty v s of
                 Inl r \<Rightarrow> r
               | Inr s' \<Rightarrow> classify_loop buf end (off + 4 + unat len + pad4 (unat len)) s') } })
     else Some (combine s))"
    by (subst classify_loop.simps)
      (auto simp: request_pre_def request_step_def pad4_def Let_def Option.bind_map_option comp_def
        intro!: Option.bind_cong split: option.split)
qed (auto simp: request_step_def split: option.splits)

definition run_request :: "tlv list \<Rightarrow> attrs_state \<Rightarrow> (credential_error, request_kind) outcome" where
  "run_request = tlv_run request_pre request_step (\<lambda>_. Some (Inl Malformed)) (\<lambda>s. Some (combine s))"

lemma classify_attrs_eq: "classify_attrs area = run_request (tlvs area) no_attrs"
  by (simp add: classify_attrs_def run_request_def req.walk_eq_run)

lemma run_request_total: "\<exists>r. run_request xs s = Some r"
  unfolding run_request_def by (rule req.tlv_run_total)

lemma classify_request_header:
  "classify_request (header ty len ck t @ rest) =
     (if ck \<noteq> MAGIC_COOKIE then Some (Inl (Stun BadMagicCookie))
      else if ty \<noteq> BINDING_REQUEST then Some (Inl (Stun (UnexpectedType ty)))
      else if length rest < unat len then Some (Inl (Stun Truncated))
      else map_option (map_sum id (Pair t)) (run_request (tlvs (take (unat len) rest)) no_attrs))"
  by (auto simp: classify_request_def parse_request_header header_reads header_slice_rest slice_def
      classify_attrs_eq map_option_case split: option.split sum.split)

lemma classify_request_short: "length d < 20 \<Longrightarrow> classify_request d = Some (Inl (Stun Truncated))"
  by (simp add: classify_request_def parse_request_short)

section \<open>The rule\<close>

text \<open>
  What the walk decides, without its order: nothing may overrun, a signature is the last attribute,
  every credential attribute is well-formed, and the counts of the three are one of three patterns.
  The first three arguments hold what an earlier part of the walk collected.
\<close>

definition values_of :: "u16 \<Rightarrow> tlv list \<Rightarrow> bytes list" where
  "values_of ty = List.map_filter (\<lambda>x. case x of Attr t v \<Rightarrow> if t = ty then Some v else None | Overrun \<Rightarrow> None)"

lemma values_of_simps [simp]:
  "values_of ty [] = []"
  "values_of ty (Attr t v # xs) = (if t = ty then v # values_of ty xs else values_of ty xs)"
  "values_of ty (Overrun # xs) = values_of ty xs"
  by (simp_all add: values_of_def)

definition identity_ok :: "bytes \<Rightarrow> bool" where
  "identity_ok v \<longleftrightarrow> length v = 1 + P256_SPKI_LEN \<and> v ! 0 = CREDENTIAL_VERSION \<and> is_valid_spki_der (drop 1 v)"

definition signature_ok :: "bytes \<Rightarrow> bool" where
  "signature_ok v \<longleftrightarrow> v \<noteq> [] \<and> v ! 0 = CREDENTIAL_VERSION \<and> is_valid_signature_der_len (drop 1 v)"

fun is_signature :: "tlv \<Rightarrow> bool" where
  "is_signature (Attr t v) \<longleftrightarrow> t = ATTR_DIG_SIGNATURE"
| "is_signature Overrun \<longleftrightarrow> False"

definition pattern_of :: "bytes list \<Rightarrow> bytes list \<Rightarrow> bytes list \<Rightarrow> credential_error + request_kind" where
  "pattern_of is ns ss =
     (case (is, ns, ss) of
        ([], [], []) \<Rightarrow> Inr Bare
      | ([i], [], []) \<Rightarrow> Inr (Identity i)
      | ([i], [n], [s]) \<Rightarrow> Inr (Signed i n s)
      | _ \<Rightarrow> Inl Malformed)"

definition classify_acc ::
  "bytes list \<Rightarrow> bytes list \<Rightarrow> bytes list \<Rightarrow> tlv list \<Rightarrow> credential_error + request_kind" where
  "classify_acc is ns ss attrs =
     (if Overrun \<in> set attrs \<or> ss \<noteq> [] \<and> attrs \<noteq> [] \<or> (\<exists>x \<in> set (butlast attrs). is_signature x)
         \<or> \<not> list_all identity_ok (values_of ATTR_DIG_IDENTITY attrs)
         \<or> \<not> list_all signature_ok (values_of ATTR_DIG_SIGNATURE attrs)
      then Inl Malformed
      else pattern_of (is @ map (drop 1) (values_of ATTR_DIG_IDENTITY attrs)) (ns @ values_of ATTR_NONCE attrs)
             (ss @ map (drop 1) (values_of ATTR_DIG_SIGNATURE attrs)))"

definition classify_rule :: "tlv list \<Rightarrow> credential_error + request_kind" where
  "classify_rule attrs = classify_acc [] [] [] attrs"

definition option_list :: "'a option \<Rightarrow> 'a list" where
  "option_list x = (case x of None \<Rightarrow> [] | Some y \<Rightarrow> [y])"

lemma option_list_simps [simp]: "option_list None = []" "option_list (Some y) = [y]"
  by (simp_all add: option_list_def)

definition acc_of :: "attrs_state \<Rightarrow> tlv list \<Rightarrow> credential_error + request_kind" where
  "acc_of s = classify_acc (option_list (identity s)) (option_list (nonce s)) (option_list (signature s))"

lemma acc_combine: "acc_of s [] = combine s"
  by (cases "identity s"; cases "nonce s"; cases "signature s")
    (simp_all add: acc_of_def classify_acc_def combine_def pattern_of_def)

lemma pattern_twice [simp]:
  "pattern_of (i # j # is) ns ss = Inl Malformed" "pattern_of is (m # n # ns) ss = Inl Malformed"
  by (auto simp: pattern_of_def split: list.split)

lemma attr_types_distinct [simp]:
  "ATTR_DIG_IDENTITY \<noteq> ATTR_NONCE" "ATTR_NONCE \<noteq> ATTR_DIG_IDENTITY"
  "ATTR_DIG_IDENTITY \<noteq> ATTR_DIG_SIGNATURE" "ATTR_DIG_SIGNATURE \<noteq> ATTR_DIG_IDENTITY"
  "ATTR_NONCE \<noteq> ATTR_DIG_SIGNATURE" "ATTR_DIG_SIGNATURE \<noteq> ATTR_NONCE"
  by (simp_all add: wire_consts)

text \<open>One turn of the walk, against the rule.\<close>

lemma acc_of_step:
  assumes "signature s = None"
  shows "acc_of s (Attr t v # xs) =
    (case on_request_attr t v s of
       None \<Rightarrow> Inl Malformed
     | Some s' \<Rightarrow> acc_of s' xs)"
proof -
  consider "t = ATTR_DIG_IDENTITY" | "t = ATTR_NONCE" | "t = ATTR_DIG_SIGNATURE"
    | "t \<noteq> ATTR_DIG_IDENTITY" "t \<noteq> ATTR_NONCE" "t \<noteq> ATTR_DIG_SIGNATURE" by blast
  then show ?thesis
  proof cases
    case 1
    then show ?thesis
      using assms by (cases "identity s")
        (auto simp: acc_of_def classify_acc_def on_request_attr_def identity_ok_def)
  next
    case 2
    then show ?thesis
      using assms by (cases "nonce s") (auto simp: acc_of_def classify_acc_def on_request_attr_def)
  next
    case 3
    then show ?thesis
      using assms by (cases xs) (auto simp: acc_of_def classify_acc_def on_request_attr_def signature_ok_def)
  next
    case 4
    then show ?thesis
      using assms by (auto simp: acc_of_def classify_acc_def on_request_attr_def)
  qed
qed

lemma on_request_attr_seen:
  "on_request_attr t v s = Some s' \<Longrightarrow> signature_seen s = (signature s \<noteq> None) \<Longrightarrow>
   signature_seen s' = (signature s' \<noteq> None)"
  by (auto simp: on_request_attr_def split: if_splits)

lemma run_request_acc:
  "signature_seen s = (signature s \<noteq> None) \<Longrightarrow> run_request xs s = Some (acc_of s xs)"
proof (induction xs arbitrary: s)
  case Nil
  then show ?case by (simp add: run_request_def acc_combine)
next
  case (Cons x xs)
  show ?case
  proof (cases "signature s")
    case (Some sig)
    with Cons.prems show ?thesis
      by (simp add: run_request_def request_pre_def acc_of_def classify_acc_def)
  next
    case None
    show ?thesis
    proof (cases x)
      case Overrun
      with None Cons.prems show ?thesis
        by (simp add: run_request_def request_pre_def acc_of_def classify_acc_def)
    next
      case (Attr t v)
      note IH = Cons.IH [unfolded run_request_def]
      have "\<not> signature_seen s" using None Cons.prems by simp
      then show ?thesis
        using IH on_request_attr_seen [of t v s] Cons.prems
        by (auto simp: Attr acc_of_step [OF None] run_request_def request_pre_def request_step_def
            split: option.split)
    qed
  qed
qed

lemma run_request_rule: "run_request xs no_attrs = Some (classify_rule xs)"
  by (subst run_request_acc) (simp_all add: no_attrs_def acc_of_def classify_rule_def)

lemma classify_header:
  "classify_request (header BINDING_REQUEST len MAGIC_COOKIE t @ rest) =
     Some (if length rest < unat len then Inl (Stun Truncated)
           else map_sum id (Pair t) (classify_rule (tlvs (take (unat len) rest))))"
  by (simp add: classify_request_header run_request_rule)

section \<open>What the encoders write\<close>

text \<open>A request with the given attribute area.\<close>

definition request_with :: "transaction_id \<Rightarrow> bytes \<Rightarrow> bytes" where
  "request_with t area = header BINDING_REQUEST (of_nat (length area)) MAGIC_COOKIE t @ area"

lemma unat_of_nat_u16: "n < 2 ^ 16 \<Longrightarrow> unat (of_nat n :: u16) = n"
  by (simp add: unsigned_of_nat take_bit_nat_eq_self)

lemma classify_request_with:
  "length area < 2 ^ 16 \<Longrightarrow> classify_request (request_with t area) = Some (map_sum id (Pair t) (classify_rule (tlvs area)))"
  by (simp add: request_with_def classify_header unat_of_nat_u16)

definition identity_attr :: "bytes \<Rightarrow> bytes" where
  "identity_attr spki = write_attr [] ATTR_DIG_IDENTITY (CREDENTIAL_VERSION # spki)"

definition nonce_attr :: "bytes \<Rightarrow> bytes" where
  "nonce_attr n = write_attr [] ATTR_NONCE n"

definition signature_attr :: "bytes \<Rightarrow> bytes" where
  "signature_attr sig = write_attr [] ATTR_DIG_SIGNATURE (CREDENTIAL_VERSION # sig)"

lemma encode_identity_eq:
  "is_valid_spki_der spki \<Longrightarrow> encode_identity_request debug t spki = Some (request_with t (identity_attr spki))"
  by (simp add: encode_identity_request_def request_with_def identity_attr_def write_header_eq Let_def)

definition signed_area :: "stun_signer \<Rightarrow> transaction_id \<Rightarrow> bytes \<Rightarrow> bytes" where
  "signed_area signer t n =
     identity_attr (spki_der signer) @ nonce_attr n
     @ signature_attr (sign signer (signing_message t n (spki_der signer)))"

lemma encode_signed_eq: "encode_signed_request t n signer = request_with t (signed_area signer t n)"
  by (simp add: encode_signed_request_def request_with_def signed_area_def identity_attr_def nonce_attr_def
      signature_attr_def write_header_eq Let_def write_attr_append [of "write_attr _ _ _"]
      write_attr_append [of "write_attr _ _ _ @ _"])

lemma area_lengths:
  "length (identity_attr spki) = 5 + length spki + pad4 (Suc (length spki))"
  "length (nonce_attr n) = 4 + length n + pad4 (length n)"
  "length (signature_attr sig) = 5 + length sig + pad4 (Suc (length sig))"
  by (simp_all add: identity_attr_def nonce_attr_def signature_attr_def layout)

lemma valid_identity_attr: "is_valid_spki_der spki \<Longrightarrow> length (identity_attr spki) = 96"
  by (simp add: area_lengths spki_length pad4_def)

lemma valid_signature_bounds: "is_valid_signature_der_len sig \<longleftrightarrow> 8 \<le> length sig \<and> length sig \<le> 72"
  by (auto simp: is_valid_signature_der_len_def wire_consts Let_def)

lemma valid_signature_attr: "is_valid_signature_der_len sig \<Longrightarrow> length (signature_attr sig) \<le> 80"
  using pad4_less [of "Suc (length sig)"] by (simp add: valid_signature_bounds area_lengths)

lemma tlvs_request_attrs:
  "is_valid_spki_der spki \<Longrightarrow> tlvs (identity_attr spki @ rest) = Attr ATTR_DIG_IDENTITY (CREDENTIAL_VERSION # spki) # tlvs rest"
  "length n < 2 ^ 16 \<Longrightarrow> tlvs (nonce_attr n @ rest) = Attr ATTR_NONCE n # tlvs rest"
  "is_valid_signature_der_len sig \<Longrightarrow>
     tlvs (signature_attr sig @ rest) = Attr ATTR_DIG_SIGNATURE (CREDENTIAL_VERSION # sig) # tlvs rest"
  by (simp_all add: identity_attr_def nonce_attr_def signature_attr_def tlvs_write_attr spki_length
      valid_signature_bounds)

lemma valid_attr_ok:
  "is_valid_spki_der spki \<Longrightarrow> identity_ok (CREDENTIAL_VERSION # spki)"
  "is_valid_signature_der_len sig \<Longrightarrow> signature_ok (CREDENTIAL_VERSION # sig)"
  by (simp_all add: identity_ok_def signature_ok_def is_valid_spki_der_def)

lemma rule_signed:
  assumes "is_valid_spki_der spki" and "is_valid_signature_der_len sig"
  shows "classify_rule [Attr ATTR_DIG_IDENTITY (CREDENTIAL_VERSION # spki), Attr ATTR_NONCE n,
      Attr ATTR_DIG_SIGNATURE (CREDENTIAL_VERSION # sig)] = Inr (Signed spki n sig)"
    and "classify_rule [Attr ATTR_NONCE n, Attr ATTR_DIG_IDENTITY (CREDENTIAL_VERSION # spki),
      Attr ATTR_DIG_SIGNATURE (CREDENTIAL_VERSION # sig)] = Inr (Signed spki n sig)"
  using assms by (simp_all add: classify_rule_def classify_acc_def pattern_of_def valid_attr_ok)

lemma classify_identity_request:
  assumes "is_valid_spki_der spki"
  shows "classify_request (request_with t (identity_attr spki)) = Some (Inr (t, Identity spki))"
proof -
  have "tlvs (identity_attr spki) = [Attr ATTR_DIG_IDENTITY (CREDENTIAL_VERSION # spki)]"
    using tlvs_request_attrs(1) [OF assms, of "[]"] by (simp add: tlvs_short)
  then show ?thesis
    using assms by (simp add: classify_request_with valid_identity_attr classify_rule_def classify_acc_def
        pattern_of_def valid_attr_ok)
qed

lemma signed_area_length:
  assumes "is_valid_spki_der (spki_der signer)"
    and "is_valid_signature_der_len (sign signer (signing_message t n (spki_der signer)))"
  shows "length (signed_area signer t n) \<le> 180 + length n + pad4 (length n)"
  using valid_identity_attr [OF assms(1)] valid_signature_attr [OF assms(2)]
  by (simp add: signed_area_def area_lengths(2))

lemma classify_signed_request:
  assumes "is_valid_spki_der (spki_der signer)"
    and "is_valid_signature_der_len (sign signer (signing_message t n (spki_der signer)))"
    and "length n < 65000"
  shows "classify_request (request_with t (signed_area signer t n))
    = Some (Inr (t, Signed (spki_der signer) n (sign signer (signing_message t n (spki_der signer)))))"
proof -
  let ?sig = "sign signer (signing_message t n (spki_der signer))"
  have "length (signed_area signer t n) < 2 ^ 16"
    using signed_area_length [OF assms(1,2)] pad4_less [of "length n"] assms(3) by simp
  moreover have "tlvs (signed_area signer t n) = [Attr ATTR_DIG_IDENTITY (CREDENTIAL_VERSION # spki_der signer),
      Attr ATTR_NONCE n, Attr ATTR_DIG_SIGNATURE (CREDENTIAL_VERSION # ?sig)]"
    using tlvs_request_attrs(3) [OF assms(2), of "[]"] assms
    by (simp add: signed_area_def tlvs_request_attrs tlvs_short)
  ultimately show ?thesis
    using assms by (simp add: classify_request_with rule_signed)
qed

section \<open>Properties\<close>

lemma classify_total: "\<exists>r. classify_request d = Some r"
proof (cases "length d < 20")
  case False
  then obtain ty len ck t rest where "d = header ty len ck t @ rest" by (meson header_split not_less)
  then show ?thesis by (simp add: classify_request_header run_request_rule)
qed (simp add: classify_request_short)

text \<open>C37: the classifier, completely. It never panics; a datagram the ordinary request parser rejects is
  rejected with the same error, wrapped, before any attribute is looked at; any other is classified by
  the order-free rule over its decomposed attribute area.\<close>
theorem classify_request_spec:
  "(length d < 20 \<and> classify_request d = Some (Inl (Stun Truncated))) \<or>
   (\<exists>ty len ck t rest. d = header ty len ck t @ rest \<and>
      classify_request d =
        Some (if ck \<noteq> MAGIC_COOKIE then Inl (Stun BadMagicCookie)
              else if ty \<noteq> BINDING_REQUEST then Inl (Stun (UnexpectedType ty))
              else if length rest < unat len then Inl (Stun Truncated)
              else map_sum id (Pair t) (classify_rule (tlvs (take (unat len) rest)))))"
proof (cases "length d < 20")
  case True
  then show ?thesis by (simp add: classify_request_short)
next
  case False
  then obtain ty len ck t rest where "d = header ty len ck t @ rest" by (meson header_split not_less)
  then show ?thesis by (auto simp: classify_request_header run_request_rule)
qed

lemma values_of_append [simp]: "values_of ty (xs @ ys) = values_of ty xs @ values_of ty ys"
  by (simp add: values_of_def List.map_filter_def)

lemma no_signature_iff: "(\<forall>x \<in> set xs. \<not> is_signature x) \<longleftrightarrow> values_of ATTR_DIG_SIGNATURE xs = []"
proof (induction xs)
  case (Cons x xs)
  then show ?case by (cases x) auto
qed simp

lemma some_signature_iff: "(\<exists>x \<in> set xs. is_signature x) \<longleftrightarrow> values_of ATTR_DIG_SIGNATURE xs \<noteq> []"
  using no_signature_iff [of xs] by blast

lemma pattern_signed_iff: "pattern_of is ns ss = Inr (Signed i n s) \<longleftrightarrow> is = [i] \<and> ns = [n] \<and> ss = [s]"
  by (auto simp: pattern_of_def split: list.splits)

lemma drop_1_eq: "v \<noteq> [] \<Longrightarrow> v ! 0 = c \<Longrightarrow> drop 1 v = xs \<longleftrightarrow> v = c # xs"
  by (cases v) auto

lemma identity_okD: "identity_ok v \<Longrightarrow> v = CREDENTIAL_VERSION # drop 1 v \<and> is_valid_spki_der (drop 1 v)"
  by (cases v) (auto simp: identity_ok_def P256_SPKI_LEN_def)

lemma signature_okD: "signature_ok v \<Longrightarrow> v = CREDENTIAL_VERSION # drop 1 v \<and> is_valid_signature_der_len (drop 1 v)"
  by (cases v) (auto simp: signature_ok_def)

lemma rule_signed_iff:
  "classify_rule attrs = Inr (Signed spki n sig) \<longleftrightarrow>
     (\<exists>pre. attrs = pre @ [Attr ATTR_DIG_SIGNATURE (CREDENTIAL_VERSION # sig)] \<and> Overrun \<notin> set pre
        \<and> values_of ATTR_DIG_IDENTITY pre = [CREDENTIAL_VERSION # spki] \<and> values_of ATTR_NONCE pre = [n]
        \<and> values_of ATTR_DIG_SIGNATURE pre = []
        \<and> is_valid_spki_der spki \<and> is_valid_signature_der_len sig)" (is "?L \<longleftrightarrow> ?R")
proof
  assume ?R
  then show ?L
    by (auto simp: classify_rule_def classify_acc_def pattern_signed_iff valid_attr_ok some_signature_iff)
next
  assume L: ?L
  have nov: "Overrun \<notin> set attrs" and nosig: "\<forall>x \<in> set (butlast attrs). \<not> is_signature x"
    and ids: "list_all identity_ok (values_of ATTR_DIG_IDENTITY attrs)"
      "map (drop 1) (values_of ATTR_DIG_IDENTITY attrs) = [spki]"
    and sigs: "list_all signature_ok (values_of ATTR_DIG_SIGNATURE attrs)"
      "map (drop 1) (values_of ATTR_DIG_SIGNATURE attrs) = [sig]"
    and n: "values_of ATTR_NONCE attrs = [n]"
    using L by (auto simp: classify_rule_def classify_acc_def pattern_signed_iff split: if_splits)
  have "attrs \<noteq> []" using sigs(2) by auto
  then obtain pre x where attrs: "attrs = pre @ [x]" by (metis append_butlast_last_id)
  have pre: "values_of ATTR_DIG_SIGNATURE pre = []" using nosig by (simp add: attrs no_signature_iff)
  with sigs(2) obtain v where x: "x = Attr ATTR_DIG_SIGNATURE v" "drop 1 v = sig"
    by (cases x) (auto simp: attrs split: if_splits)
  moreover have "signature_ok v" using sigs(1) by (simp add: attrs x)
  moreover obtain w where "values_of ATTR_DIG_IDENTITY pre = [w]" "drop 1 w = spki" "identity_ok w"
    using ids by (auto simp: attrs x)
  ultimately show ?R
    using nov n pre by (intro exI [of _ pre]) (auto simp: attrs dest!: identity_okD signature_okD)
qed

lemma signed_conv:
  "classify_request d = Some (Inr (t, Signed spki n sig)) \<longleftrightarrow>
     (\<exists>len rest pre. d = header BINDING_REQUEST len MAGIC_COOKIE t @ rest \<and> unat len \<le> length rest
        \<and> tlvs (take (unat len) rest) = pre @ [Attr ATTR_DIG_SIGNATURE (CREDENTIAL_VERSION # sig)]
        \<and> Overrun \<notin> set pre \<and> values_of ATTR_DIG_IDENTITY pre = [CREDENTIAL_VERSION # spki]
        \<and> values_of ATTR_NONCE pre = [n] \<and> values_of ATTR_DIG_SIGNATURE pre = []
        \<and> is_valid_spki_der spki \<and> 8 \<le> length sig \<and> length sig \<le> 72)"
proof (cases "length d < 20")
  case True
  then show ?thesis by (auto simp: classify_request_short)
next
  case False
  then obtain ty len ck u rest where d: "d = header ty len ck u @ rest" by (meson header_split not_less)
  have map: "map_sum id (Pair u) r = Inr (t, k) \<longleftrightarrow> u = t \<and> r = Inr k" for r :: "credential_error + request_kind" and k
    by (cases r) auto
  show ?thesis
    unfolding d by (auto simp: classify_request_header run_request_rule map rule_signed_iff valid_signature_bounds)
qed

text \<open>C16: when a request is a signed one. A datagram classifies as \<open>Signed\<close> if and only if it is a
  Binding request whose declared attribute area, without overrun, has exactly one well-formed key, one
  nonce and, as its last attribute, one signature of 8 to 72 bytes; the fields are those attributes,
  the nonce exactly as carried.\<close>
theorem classify_signed_iff:
  "classify_request d = Some (Inr (t, Signed spki n sig)) \<longleftrightarrow>
     (\<exists>len rest pre. d = header BINDING_REQUEST len MAGIC_COOKIE t @ rest \<and> unat len \<le> length rest
        \<and> tlvs (take (unat len) rest) = pre @ [Attr ATTR_DIG_SIGNATURE (CREDENTIAL_VERSION # sig)]
        \<and> Overrun \<notin> set pre \<and> values_of ATTR_DIG_IDENTITY pre = [CREDENTIAL_VERSION # spki]
        \<and> values_of ATTR_NONCE pre = [n] \<and> values_of ATTR_DIG_SIGNATURE pre = []
        \<and> is_valid_spki_der spki \<and> 8 \<le> length sig \<and> length sig \<le> 72)"
  by (rule signed_conv)

text \<open>An identity request is one. The encoding of any well-shaped key never trips its assertion, is
  116 bytes long, and the server classifies it as that identity under that transaction id.\<close>
theorem identity_request_roundtrip:
  assumes "is_valid_spki_der spki"
  shows "\<exists>d. encode_identity_request debug t spki = Some d \<and> length d = 116
    \<and> classify_request d = Some (Inr (t, Identity spki))"
  using assms classify_identity_request [OF assms]
  by (simp add: encode_identity_eq request_with_def valid_identity_attr)

theorem identity_request_roundtrip_witness:
  "\<exists>d. encode_identity_request True (Txid (replicate 12 1)) example_spki = Some d \<and> length d = 116
    \<and> classify_request d = Some (Inr (Txid (replicate 12 1), Identity example_spki))"
  by (rule identity_request_roundtrip) simp

text \<open>C36: a signed request is one. For a well-shaped key and a signature of legal length, the server
  reads back exactly the key, the nonce and the signature the client put in, whatever the nonce the
  client was handed (up to 65,000 bytes); with a nonce of at most 28 bytes, so any this crate issues,
  the datagram has at most 228 bytes.\<close>
theorem signed_request_roundtrip:
  assumes "is_valid_spki_der (spki_der signer)"
    and "is_valid_signature_der_len (sign signer (signing_message t n (spki_der signer)))"
    and "length n < 65000"
  shows "classify_request (encode_signed_request t n signer)
      = Some (Inr (t, Signed (spki_der signer) n (sign signer (signing_message t n (spki_der signer)))))
    \<and> (length n \<le> 28 \<longrightarrow> length (encode_signed_request t n signer) \<le> 228)"
proof -
  have "length n + pad4 (length n) \<le> 28" if "length n \<le> 28"
    using that pad4_less [of "length n"] pad4_aligned [of "length n"] by presburger
  then show ?thesis
    using classify_signed_request [OF assms] signed_area_length [OF assms(1,2)]
    by (auto simp: encode_signed_eq request_with_def)
qed

definition example_signer :: stun_signer where
  "example_signer = \<lparr>spki_der = example_spki, sign = \<lambda>m. take 70 (m @ replicate 70 3)\<rparr>"

lemma example_signer_valid [simp]: "is_valid_spki_der (spki_der example_signer)"
    "is_valid_signature_der_len (sign example_signer m)"
  by (auto simp: example_signer_def valid_signature_bounds min_def)

theorem signed_request_roundtrip_witness:
  "length (encode_signed_request (Txid (replicate 12 1)) (replicate 27 65) example_signer) \<le> 228"
  using signed_request_roundtrip [OF example_signer_valid, of "replicate 27 65" "Txid (replicate 12 1)"] by simp

text \<open>The order of key and nonce is not checked. The doc comment of \<open>RequestKind::Signed\<close> names the
  attributes in that order, and the one of \<open>CredentialError::Malformed\<close> calls an attribute out of the
  required order malformed; a request with the nonce before the key is classified as signed.\<close>
theorem nonce_before_identity_accepted:
  assumes "is_valid_spki_der spki" and "is_valid_signature_der_len sig" and "length n < 60000"
  shows "classify_request (request_with t (nonce_attr n @ identity_attr spki @ signature_attr sig))
    = Some (Inr (t, Signed spki n sig))"
proof -
  have "length (nonce_attr n @ identity_attr spki @ signature_attr sig) < 2 ^ 16"
    using valid_identity_attr [OF assms(1)] valid_signature_attr [OF assms(2)] pad4_less [of "length n"] assms(3)
    by (simp add: area_lengths(2))
  moreover have "tlvs (nonce_attr n @ identity_attr spki @ signature_attr sig) = [Attr ATTR_NONCE n,
      Attr ATTR_DIG_IDENTITY (CREDENTIAL_VERSION # spki), Attr ATTR_DIG_SIGNATURE (CREDENTIAL_VERSION # sig)]"
    using tlvs_request_attrs(3) [OF assms(2), of "[]"] assms by (simp add: tlvs_request_attrs tlvs_short)
  ultimately show ?thesis
    using assms by (simp add: classify_request_with rule_signed)
qed

theorem nonce_before_identity_accepted_witness:
  "classify_request (request_with (Txid (replicate 12 1))
     (nonce_attr [65] @ identity_attr example_spki @ signature_attr (replicate 70 3)))
   = Some (Inr (Txid (replicate 12 1), Signed example_spki [65] (replicate 70 3)))"
  by (rule nonce_before_identity_accepted) (simp_all add: valid_signature_bounds)

text \<open>The two request parsers disagree. SPEC.md section 2.5 says that \<open>classify_request\<close> and
  \<open>parse_binding_request\<close> agree on every datagram the latter accepts; a bare request with one
  attribute, of an unknown type, that overruns the declared area is accepted by one and malformed for
  the other.\<close>
theorem parsers_disagree_on_overrun:
  "parse_binding_request (request_with t [0x80, 0x22, 0, 5]) = Some (Inr t)
   \<and> classify_request (request_with t [0x80, 0x22, 0, 5]) = Some (Inl Malformed)"
  by (simp add: request_with_def parse_request_header classify_header classify_rule_def classify_acc_def
      tlvs.simps u16_of_be_def Let_def)

end
