(* ===== verification/Response.thy ===== *)
theory Response
  imports Request
begin

text \<open>
  The error response, \<open>src/credential/response.rs\<close>: the encoder of the four shapes a server sends
  and the parser the client reads them with. The walk of the parser, which stops at an overrunning
  attribute instead of failing, is the third instance of the attribute-loop contract.
\<close>

section \<open>The code\<close>

record challenge =
  code :: u16
  challenge_realm :: "string option"
  challenge_nonce :: "bytes option"

definition reason_phrase :: "u16 \<Rightarrow> string option" where
  "reason_phrase c =
     (if c = ERR_UNAUTHENTICATED then Some ''Unauthenticated''
      else if c = ERR_STALE_NONCE then Some ''Stale Nonce''
      else if c = ERR_BAD_REQUEST then Some ''Bad Request''
      else None)"

definition encode_challenge :: "transaction_id \<Rightarrow> u16 \<Rightarrow> bytes option \<Rightarrow> bytes option" where
  "encode_challenge txid c raw_nonce = do {
     reason \<leftarrow> reason_phrase c;
     let error_code_value = [0, 0, ucast (c div 100), ucast (c mod 100)] @ as_bytes reason;
     let attrs = write_attr [] ATTR_ERROR_CODE error_code_value;
     let attrs = (case raw_nonce of
         None \<Rightarrow> attrs
       | Some raw \<Rightarrow>
           write_attr (write_attr attrs ATTR_REALM (as_bytes REALM)) ATTR_NONCE (as_bytes (base64url_encode raw)));
     let msg = write_header [] BINDING_ERROR (of_nat (length attrs)) txid;
     Some (msg @ attrs) }"

text \<open>\<open>std::str::from_utf8\<close>: the well-formed UTF-8 byte sequences.\<close>

definition cont :: "u8 \<Rightarrow> bool" where
  "cont b \<longleftrightarrow> 0x80 \<le> b \<and> b \<le> 0xBF"

fun utf8_valid :: "bytes \<Rightarrow> bool" where
  "utf8_valid [] \<longleftrightarrow> True"
| "utf8_valid (a # s) \<longleftrightarrow>
     (if a < 0x80 then utf8_valid s
      else case s of
        [] \<Rightarrow> False
      | b # s \<Rightarrow>
          if 0xC2 \<le> a \<and> a \<le> 0xDF then cont b \<and> utf8_valid s
          else case s of
            [] \<Rightarrow> False
          | c # s \<Rightarrow>
              if 0xE0 \<le> a \<and> a \<le> 0xEF then
                cont b \<and> (a = 0xE0 \<longrightarrow> 0xA0 \<le> b) \<and> (a = 0xED \<longrightarrow> b \<le> 0x9F) \<and> cont c \<and> utf8_valid s
              else case s of
                [] \<Rightarrow> False
              | d # s \<Rightarrow>
                  0xF0 \<le> a \<and> a \<le> 0xF4 \<and> cont b \<and> (a = 0xF0 \<longrightarrow> 0x90 \<le> b) \<and> (a = 0xF4 \<longrightarrow> b \<le> 0x8F)
                  \<and> cont c \<and> cont d \<and> utf8_valid s)"

definition on_challenge_attr :: "u16 \<Rightarrow> bytes \<Rightarrow> challenge \<Rightarrow> challenge" where
  "on_challenge_attr attr_type v ch =
     (if attr_type = ATTR_ERROR_CODE \<and> 4 \<le> length v then
        ch\<lparr>code := 100 * ucast (v ! 2) + ucast (v ! 3)\<rparr>
      else if attr_type = ATTR_REALM then
        (if utf8_valid v then ch\<lparr>challenge_realm := Some (string_of_bytes v)\<rparr> else ch)
      else if attr_type = ATTR_NONCE then ch\<lparr>challenge_nonce := Some v\<rparr>
      else ch)"

function challenge_loop :: "bytes \<Rightarrow> nat \<Rightarrow> nat \<Rightarrow> challenge \<Rightarrow> challenge option" where
  "challenge_loop area end off ch =
     (if off + 4 \<le> end then do {
        attr_type \<leftarrow> read_be16 area off;
        attr_len \<leftarrow> map_option unat (read_be16 area (off + 2));
        let val_start = off + 4;
        let val_end = val_start + attr_len;
        if end < val_end then Some ch
        else do {
          v \<leftarrow> slice area val_start val_end;
          challenge_loop area end (val_end + (4 - attr_len mod 4) mod 4) (on_challenge_attr attr_type v ch) } }
      else Some ch)"
  by pat_completeness auto
termination
  by (relation "measure (\<lambda>(area, end, off, ch). end - off)") auto

declare challenge_loop.simps [simp del]

definition no_challenge :: challenge where
  "no_challenge = \<lparr>code = 0, challenge_realm = None, challenge_nonce = None\<rparr>"

definition parse_challenge :: "bytes \<Rightarrow> transaction_id \<Rightarrow> (stun_error, challenge) outcome" where
  "parse_challenge msg expected_txid =
     (if length msg < 20 then Some (Inl Truncated)
      else do {
        msg_type \<leftarrow> read_be16 msg 0;
        msg_len \<leftarrow> map_option unat (read_be16 msg 2);
        cookie \<leftarrow> read_be32 msg 4;
        if cookie \<noteq> MAGIC_COOKIE then Some (Inl BadMagicCookie)
        else if msg_type \<noteq> BINDING_ERROR then Some (Inl (UnexpectedType msg_type))
        else do {
          id_bytes \<leftarrow> slice msg 8 20;
          case txid_of_slice id_bytes of
            None \<Rightarrow> Some (Inl Truncated)
          | Some txid \<Rightarrow>
              if txid \<noteq> expected_txid then Some (Inl TransactionIdMismatch)
              else if length msg < 20 + msg_len then Some (Inl Truncated)
              else do {
                area \<leftarrow> slice msg 20 (20 + msg_len);
                ch \<leftarrow> challenge_loop area (length area) 0 no_challenge;
                Some (Inr ch) } } })"

section \<open>The loop meets the contract\<close>

interpretation chal: tlv_loop challenge_loop "\<lambda>_. None" "\<lambda>t v ch. Inr (on_challenge_attr t v ch)" Some Some
proof
  fix buf "end" off s
  show "challenge_loop buf end off s =
    (if off + 4 \<le> end then
       (case None of
          Some r \<Rightarrow> Some r
        | None \<Rightarrow> do {
            ty \<leftarrow> read_be16 buf off;
            len \<leftarrow> read_be16 buf (off + 2);
            if end < off + 4 + unat len then Some s
            else do {
              v \<leftarrow> slice buf (off + 4) (off + 4 + unat len);
              (case Inr (on_challenge_attr ty v s) of
                 Inl r \<Rightarrow> r
               | Inr s' \<Rightarrow> challenge_loop buf end (off + 4 + unat len + pad4 (unat len)) s') } })
     else Some s)"
    by (subst challenge_loop.simps)
      (auto simp: pad4_def Let_def Option.bind_map_option comp_def intro!: Option.bind_cong)
qed auto

text \<open>The walk is a fold over the attributes before the overrun.\<close>

fun take_attr :: "challenge \<Rightarrow> tlv \<Rightarrow> challenge" where
  "take_attr ch (Attr t v) = on_challenge_attr t v ch"
| "take_attr ch Overrun = ch"

lemma run_challenge:
  "Overrun \<notin> set (butlast xs) \<Longrightarrow>
   tlv_run (\<lambda>_. None) (\<lambda>t v ch. Inr (on_challenge_attr t v ch)) Some Some xs ch = Some (foldl take_attr ch xs)"
proof (induction xs arbitrary: ch)
  case (Cons x xs)
  show ?case
  proof (cases x)
    case Overrun
    with Cons.prems have "xs = []" by (cases xs) auto
    with Overrun show ?thesis by simp
  next
    case (Attr t v)
    with Cons show ?thesis by (auto split: if_splits)
  qed
qed simp

lemma challenge_loop_eq: "challenge_loop area (length area) 0 ch = Some (foldl take_attr ch (tlvs area))"
  by (simp add: chal.walk_eq_run run_challenge overrun_last)

lemma parse_challenge_short: "length msg < 20 \<Longrightarrow> parse_challenge msg t = Some (Inl Truncated)"
  by (simp add: parse_challenge_def)

lemma parse_challenge_header:
  "parse_challenge (header ty len ck t @ rest) e =
     Some (if ck \<noteq> MAGIC_COOKIE then Inl BadMagicCookie
           else if ty \<noteq> BINDING_ERROR then Inl (UnexpectedType ty)
           else if t \<noteq> e then Inl TransactionIdMismatch
           else if length rest < unat len then Inl Truncated
           else Inr (foldl take_attr no_challenge (tlvs (take (unat len) rest))))"
proof -
  have "length rest \<ge> unat len \<Longrightarrow> slice (header ty len ck t @ rest) 20 (20 + unat len) = Some (take (unat len) rest)"
    by (simp add: header_slice_rest slice_def)
  then show ?thesis
    by (auto simp: parse_challenge_def header_reads challenge_loop_eq)
qed

text \<open>What the fold selects: the last occurrence of each.\<close>

definition last_of :: "'a list \<Rightarrow> 'a option" where
  "last_of xs = (if xs = [] then None else Some (last xs))"

lemma last_of_append [simp]: "last_of (xs @ [x]) = Some x"
  by (simp add: last_of_def)

definition challenge_of :: "tlv list \<Rightarrow> challenge" where
  "challenge_of attrs =
     \<lparr>code = (case last_of (filter (\<lambda>v. 4 \<le> length v) (values_of ATTR_ERROR_CODE attrs)) of
                Some v \<Rightarrow> 100 * ucast (v ! 2) + ucast (v ! 3) | None \<Rightarrow> 0),
      challenge_realm = map_option string_of_bytes (last_of (filter utf8_valid (values_of ATTR_REALM attrs))),
      challenge_nonce = last_of (values_of ATTR_NONCE attrs)\<rparr>"

lemma response_types_distinct [simp]:
  "ATTR_ERROR_CODE \<noteq> ATTR_REALM" "ATTR_REALM \<noteq> ATTR_ERROR_CODE" "ATTR_ERROR_CODE \<noteq> ATTR_NONCE"
  "ATTR_NONCE \<noteq> ATTR_ERROR_CODE" "ATTR_REALM \<noteq> ATTR_NONCE" "ATTR_NONCE \<noteq> ATTR_REALM"
  by (simp_all add: wire_consts)

lemma fold_challenge: "foldl take_attr no_challenge attrs = challenge_of attrs"
proof (induction attrs rule: rev_induct)
  case Nil
  then show ?case by (simp add: challenge_of_def no_challenge_def last_of_def)
next
  case (snoc x xs)
  then show ?case
    by (cases x) (auto simp: challenge_of_def on_challenge_attr_def)
qed

section \<open>What the encoder writes\<close>

definition error_value :: "u16 \<Rightarrow> string \<Rightarrow> bytes" where
  "error_value c reason = [0, 0, ucast (c div 100), ucast (c mod 100)] @ as_bytes reason"

definition challenge_attrs :: "u16 \<Rightarrow> string \<Rightarrow> bytes option \<Rightarrow> tlv list" where
  "challenge_attrs c reason raw_nonce =
     Attr ATTR_ERROR_CODE (error_value c reason)
     # (case raw_nonce of
          None \<Rightarrow> []
        | Some raw \<Rightarrow> [Attr ATTR_REALM (as_bytes REALM), Attr ATTR_NONCE (as_bytes (base64url_encode raw))])"

definition challenge_area :: "u16 \<Rightarrow> string \<Rightarrow> bytes option \<Rightarrow> bytes" where
  "challenge_area c reason raw_nonce =
     write_attr [] ATTR_ERROR_CODE (error_value c reason)
     @ (case raw_nonce of
          None \<Rightarrow> []
        | Some raw \<Rightarrow> write_attr [] ATTR_REALM (as_bytes REALM)
            @ write_attr [] ATTR_NONCE (as_bytes (base64url_encode raw)))"

lemma encode_challenge_eq:
  "encode_challenge t c raw_nonce =
     map_option (\<lambda>reason. header BINDING_ERROR (of_nat (length (challenge_area c reason raw_nonce))) MAGIC_COOKIE t
       @ challenge_area c reason raw_nonce) (reason_phrase c)"
  by (cases "reason_phrase c"; cases raw_nonce)
    (simp_all add: encode_challenge_def challenge_area_def error_value_def write_header_eq Let_def
      write_attr_append [of "write_attr _ _ _"] write_attr_append [of "_ @ _"])

lemma reason_phrase_some: "reason_phrase c = Some reason \<Longrightarrow> length reason \<le> 15"
  by (auto simp: reason_phrase_def split: if_splits)

definition nonce_sized :: "bytes option \<Rightarrow> bool" where
  "nonce_sized raw_nonce \<longleftrightarrow> (\<forall>raw. raw_nonce = Some raw \<longrightarrow> length raw = NONCE_LEN)"

lemma challenge_area_length:
  assumes "nonce_sized raw_nonce"
  shows "length (challenge_area c reason raw_nonce) =
    8 + length reason + pad4 (length reason) + (case raw_nonce of None \<Rightarrow> 0 | Some _ \<Rightarrow> 44)"
proof -
  have "pad4 (n + 4) = pad4 n" for n by (simp add: pad4_def)
  then show ?thesis
    using assms by (cases raw_nonce)
      (auto simp: challenge_area_def error_value_def layout nonce_sized_def NONCE_LEN_def REALM_def
        length_base64url_encode pad4_def)
qed

lemma tlvs_challenge_area:
  assumes "nonce_sized raw_nonce" and "reason_phrase c = Some reason"
  shows "tlvs (challenge_area c reason raw_nonce) = challenge_attrs c reason raw_nonce"
proof -
  have len: "length (error_value c reason) < 2 ^ 16" "length (as_bytes REALM) < 2 ^ 16"
    using reason_phrase_some [OF assms(2)] by (simp_all add: error_value_def REALM_def)
  have one: "tlvs (write_attr [] ty v) = [Attr ty v]" if "length v < 2 ^ 16" for ty v
    using tlvs_write_attr [OF that, of ty "[]"] by (simp add: tlvs_short)
  show ?thesis
  proof (cases raw_nonce)
    case None
    then show ?thesis by (simp add: challenge_area_def challenge_attrs_def one [OF len(1)])
  next
    case (Some raw)
    then have raw: "length (as_bytes (base64url_encode raw)) < 2 ^ 16"
      using assms(1) by (simp add: nonce_sized_def NONCE_LEN_def length_base64url_encode)
    then show ?thesis
      using Some by (simp add: challenge_area_def challenge_attrs_def tlvs_write_attr [OF len(1)] tlvs_write_attr [OF len(2)] one [OF raw])
  qed
qed

lemma area_u16:
  assumes "nonce_sized raw_nonce" and "reason_phrase c = Some reason"
  shows "unat (of_nat (length (challenge_area c reason raw_nonce)) :: u16) = length (challenge_area c reason raw_nonce)"
  using reason_phrase_some [OF assms(2)] pad4_less [of "length reason"]
  by (intro unat_of_nat_u16) (simp add: challenge_area_length [OF assms(1)] split: option.split)

lemma realm_utf8 [simp]: "utf8_valid (as_bytes REALM)"
  by (simp add: REALM_def as_bytes_def)

lemma code_roundtrip: "reason_phrase c = Some reason \<Longrightarrow> 100 * ucast (ucast (c div 100) :: u8) + ucast (ucast (c mod 100) :: u8) = c"
  by (auto simp: reason_phrase_def wire_consts split: if_splits)

lemma challenge_of_attrs:
  assumes "reason_phrase c = Some reason"
  shows "challenge_of (challenge_attrs c reason raw_nonce) =
    \<lparr>code = c, challenge_realm = map_option (\<lambda>_. REALM) raw_nonce,
     challenge_nonce = map_option (\<lambda>raw. as_bytes (base64url_encode raw)) raw_nonce\<rparr>"
  using code_roundtrip [OF assms]
  by (cases raw_nonce) (simp_all add: challenge_attrs_def challenge_of_def last_of_def error_value_def)

lemma parse_encode_challenge:
  assumes "nonce_sized raw_nonce" and "encode_challenge t c raw_nonce = Some d"
  shows "parse_challenge d t = Some (Inr
    \<lparr>code = c, challenge_realm = map_option (\<lambda>_. REALM) raw_nonce,
     challenge_nonce = map_option (\<lambda>raw. as_bytes (base64url_encode raw)) raw_nonce\<rparr>)"
proof -
  obtain reason where r: "reason_phrase c = Some reason"
    and d: "d = header BINDING_ERROR (of_nat (length (challenge_area c reason raw_nonce))) MAGIC_COOKIE t
       @ challenge_area c reason raw_nonce"
    using assms(2) by (auto simp: encode_challenge_eq)
  show ?thesis
    by (simp add: d parse_challenge_header area_u16 [OF assms(1) r] fold_challenge
        tlvs_challenge_area [OF assms(1) r] challenge_of_attrs [OF r])
qed

section \<open>Properties\<close>

lemma parse_challenge_total: "\<exists>r. parse_challenge msg t = Some r"
proof (cases "length msg < 20")
  case False
  then obtain ty len ck u rest where "msg = header ty len ck u @ rest" by (meson header_split not_less)
  then show ?thesis by (simp add: parse_challenge_header)
qed (simp add: parse_challenge_short)

text \<open>C39: the challenge parser, completely. It never panics; it checks length, cookie, type, transaction
  id and declared length in that order with the documented errors; past them it always answers, with
  the last error code of at least four bytes (0 without one), the last realm that is UTF-8 and the
  last nonce, ignoring an overrunning attribute and what follows it.\<close>
theorem parse_challenge_spec:
  "(length msg < 20 \<and> parse_challenge msg e = Some (Inl Truncated)) \<or>
   (\<exists>ty len ck t rest. msg = header ty len ck t @ rest \<and>
      parse_challenge msg e =
        Some (if ck \<noteq> MAGIC_COOKIE then Inl BadMagicCookie
              else if ty \<noteq> BINDING_ERROR then Inl (UnexpectedType ty)
              else if t \<noteq> e then Inl TransactionIdMismatch
              else if length rest < unat len then Inl Truncated
              else Inr (challenge_of (tlvs (take (unat len) rest)))))"
proof (cases "length msg < 20")
  case True
  then show ?thesis by (simp add: parse_challenge_short)
next
  case False
  then obtain ty len ck t rest where "msg = header ty len ck t @ rest" by (meson header_split not_less)
  then show ?thesis by (auto simp: parse_challenge_header fold_challenge)
qed

text \<open>The four shapes. The encoder panics exactly on a code other than 400, 401 and 438; with a
  20-byte nonce or none, its messages have 40 (400), 44 (401) bytes without a nonce and 84 (438),
  88 (401) bytes with one.\<close>
theorem encode_challenge_shapes:
  "(encode_challenge t c raw_nonce = None \<longleftrightarrow> c \<noteq> 400 \<and> c \<noteq> 401 \<and> c \<noteq> 438)
   \<and> map_option length (encode_challenge t 400 None) = Some 40
   \<and> map_option length (encode_challenge t 401 None) = Some 44
   \<and> (length raw = NONCE_LEN \<longrightarrow> map_option length (encode_challenge t 438 (Some raw)) = Some 84
      \<and> map_option length (encode_challenge t 401 (Some raw)) = Some 88)"
proof -
  have "nonce_sized None" "length raw = NONCE_LEN \<Longrightarrow> nonce_sized (Some raw)" by (simp_all add: nonce_sized_def)
  note len = this [THEN challenge_area_length]
  show ?thesis
    by (auto simp: encode_challenge_eq len reason_phrase_def wire_consts pad4_def)
qed

theorem encode_challenge_shapes_witness:
  "map_option length (encode_challenge (Txid (replicate 12 1)) 401 (Some (replicate 20 7))) = Some 88"
  using encode_challenge_shapes [of "Txid (replicate 12 1)" 401 None "replicate 20 7"] by (simp add: NONCE_LEN_def)

text \<open>C38: a challenge round-trips. What the server encoded, the client reads back under the same
  transaction id: the code, the realm exactly when there is a nonce, and the nonce text; under another
  id it is a mismatch; and the Binding response parser refuses it for its type, so it can never be
  taken for an address.\<close>
theorem challenge_roundtrip:
  assumes "nonce_sized raw_nonce" and "encode_challenge t c raw_nonce = Some d"
  shows "parse_challenge d t = Some (Inr
      \<lparr>code = c, challenge_realm = map_option (\<lambda>_. REALM) raw_nonce,
       challenge_nonce = map_option (\<lambda>raw. as_bytes (base64url_encode raw)) raw_nonce\<rparr>)
    \<and> (parse_challenge d u = Some (Inl TransactionIdMismatch) \<longleftrightarrow> u \<noteq> t)
    \<and> parse_binding_response d e = Some (Inl (UnexpectedType BINDING_ERROR))"
proof -
  note P = parse_encode_challenge [OF assms]
  have "parse_challenge d u = Some (Inl TransactionIdMismatch)" if "u \<noteq> t"
    using assms(2) that by (auto simp: encode_challenge_eq parse_challenge_header)
  moreover have "parse_binding_response d e = Some (Inl (UnexpectedType BINDING_ERROR))"
    using assms(2) by (auto simp: encode_challenge_eq parse_response_header BINDING_ERROR_def BINDING_SUCCESS_def)
  ultimately show ?thesis using P by auto
qed

theorem challenge_roundtrip_witness:
  "\<exists>d. encode_challenge (Txid (replicate 12 1)) 401 (Some (replicate 20 7)) = Some d
     \<and> parse_binding_response d None = Some (Inl (UnexpectedType BINDING_ERROR))"
proof -
  have "nonce_sized (Some (replicate 20 7))" by (simp add: nonce_sized_def NONCE_LEN_def)
  moreover obtain d where "encode_challenge (Txid (replicate 12 1)) 401 (Some (replicate 20 7)) = Some d"
    by (auto simp: encode_challenge_eq reason_phrase_def wire_consts)
  ultimately show ?thesis using challenge_roundtrip by blast
qed

end
