(* ===== verification/Decide.thy ===== *)
theory Decide
  imports Response
begin

text \<open>
  The server's decision table, \<open>src/credential/decide.rs\<close>, and the flow around it that
  \<open>tests/credential.rs\<close> runs as the reference (\<open>reference_server_decide\<close>), with its count of
  signature verifications.
\<close>

section \<open>The code\<close>

datatype credential_mode = Advisory | Required

datatype server_decision =
    Answer "verified_identity option"
  | Challenge u16
  | Refuse u16

definition decide ::
  "credential_mode \<Rightarrow> request_kind \<Rightarrow> nonce_check option \<Rightarrow> (credential_error + verified_identity) option
   \<Rightarrow> server_decision" where
  "decide mode kind nonce_result verified =
     (case kind of
        Bare \<Rightarrow>
          (case mode of
             Advisory \<Rightarrow> Answer None
           | Required \<Rightarrow> Refuse ERR_UNAUTHENTICATED)
      | Identity _ \<Rightarrow> Challenge ERR_UNAUTHENTICATED
      | Signed _ _ _ \<Rightarrow>
          (case nonce_result of
             Some Fresh \<Rightarrow>
               (case verified of
                  Some (Inr ident) \<Rightarrow> Answer (Some ident)
                | _ \<Rightarrow> Challenge ERR_UNAUTHENTICATED)
           | Some Stale \<Rightarrow> Challenge ERR_STALE_NONCE
           | _ \<Rightarrow> Challenge ERR_UNAUTHENTICATED))"

text \<open>The reference flow: the decision, and how often the signature was verified.\<close>

definition reference_server_decide ::
  "verifier \<Rightarrow> credential_mode \<Rightarrow> request_kind \<Rightarrow> nonce_check option \<Rightarrow> transaction_id
   \<Rightarrow> (server_decision \<times> nat) option" where
  "reference_server_decide ecdsa mode kind nonce_result txid =
     (case (kind, nonce_result) of
        (Signed _ _ _, Some Fresh) \<Rightarrow> do {
          verified \<leftarrow> verify_signed_request ecdsa txid kind;
          Some (decide mode kind nonce_result (Some verified), 1) }
      | _ \<Rightarrow> Some (decide mode kind nonce_result None, 0))"

section \<open>Lemmas\<close>

lemmas err_codes = ERR_UNAUTHENTICATED_def ERR_STALE_NONCE_def

lemma decide_bare [simp]: "decide mode Bare nc v = (if mode = Advisory then Answer None else Refuse 401)"
  by (cases mode) (simp_all add: decide_def err_codes)

lemma decide_identity [simp]: "decide mode (Identity i) nc v = Challenge 401"
  by (simp add: decide_def err_codes)

lemma decide_signed [simp]:
  "decide mode (Signed i n s) nc v =
     (if nc = Some Fresh then (case v of Some (Inr ident) \<Rightarrow> Answer (Some ident) | _ \<Rightarrow> Challenge 401)
      else if nc = Some Stale then Challenge 438 else Challenge 401)"
  by (cases nc) (simp_all add: decide_def err_codes split: nonce_check.split option.split sum.split)

lemma reference_signed_fresh:
  "reference_server_decide ecdsa mode (Signed spki n sig) (Some Fresh) t =
     Some (if is_valid_spki_der spki \<and> signature_valid ecdsa t spki n sig
           then Answer (Some \<lparr>verified_spki = spki\<rparr>) else Challenge 401, 1)"
  by (simp add: reference_server_decide_def verify_signed)

lemma reference_other:
  "\<not> (\<exists>spki n sig. kind = Signed spki n sig \<and> nc = Some Fresh) \<Longrightarrow>
   reference_server_decide ecdsa mode kind nc t = Some (decide mode kind nc None, 0)"
  by (auto simp: reference_server_decide_def split: request_kind.split option.split nonce_check.split)

section \<open>Properties\<close>

text \<open>The table, read backwards. An identity is answered only to a signed request with a fresh nonce
  and a verified signature, and it is the verified one; an anonymous answer only to a bare request in
  advisory mode; a refusal is a bare request in required mode, with 401; a 438 is a signed request with
  a stale nonce; and the two modes differ on bare requests only.\<close>
theorem decide_table:
  "(decide mode kind nc v = Answer (Some ident) \<longleftrightarrow>
      (\<exists>i n s. kind = Signed i n s) \<and> nc = Some Fresh \<and> v = Some (Inr ident))
   \<and> (decide mode kind nc v = Answer None \<longleftrightarrow> kind = Bare \<and> mode = Advisory)
   \<and> (decide mode kind nc v = Refuse c \<longleftrightarrow> kind = Bare \<and> mode = Required \<and> c = 401)
   \<and> (decide mode kind nc v = Challenge 438 \<longleftrightarrow> (\<exists>i n s. kind = Signed i n s) \<and> nc = Some Stale)
   \<and> (decide Advisory kind nc v = decide Required kind nc v \<longleftrightarrow> kind \<noteq> Bare)"
  by (cases kind; cases mode) (auto split: option.splits sum.splits)

text \<open>The reference flow verifies late and at most once. It never panics; it verifies a signature
  exactly for a signed request with a fresh nonce, once; and it answers with an identity exactly when
  moreover the key has the required shape and the signature verifies under it.\<close>
theorem reference_server_verifies_late:
  "\<exists>decision calls. reference_server_decide ecdsa mode kind nc t = Some (decision, calls)
   \<and> calls = (if (\<exists>i n s. kind = Signed i n s) \<and> nc = Some Fresh then 1 else 0)
   \<and> (decision = Answer (Some ident) \<longleftrightarrow>
        (\<exists>spki n sig. kind = Signed spki n sig \<and> nc = Some Fresh \<and> is_valid_spki_der spki
           \<and> signature_valid ecdsa t spki n sig \<and> ident = \<lparr>verified_spki = spki\<rparr>))"
proof (cases "\<exists>spki n sig. kind = Signed spki n sig \<and> nc = Some Fresh")
  case True
  then show ?thesis by (auto simp: reference_signed_fresh)
next
  case False
  then have "reference_server_decide ecdsa mode kind nc t = Some (decide mode kind nc None, 0)"
    by (intro reference_other) auto
  with False show ?thesis
    by (cases kind) auto
qed

end
