(* ===== verification/SignedClient.thy ===== *)
theory SignedClient
  imports Decide
begin

text \<open>
  The signed client, \<open>src/credential/signed_client.rs\<close>: one exchange of at most three datagrams
  under one deadline. The environment is that of the plain client; \<open>send_error k\<close> is the outcome
  of the \<open>k\<close>-th \<open>send_to\<close>.
\<close>

section \<open>The code\<close>

datatype signed_query_error = Stun stun_error | Refused u16 | BadChallenge

datatype stage = Initial | AfterFirstChallenge | AfterReSign

text \<open>What the body of the loop does with a datagram: \<open>continue\<close>, \<open>return\<close>, panic, or answer a
  challenge carrying this nonce and go on in the next stage.\<close>

datatype turn = Continue | Return "signed_query_error + socket_addr" | Panic | SignAgain bytes stage

definition handle_challenge :: "stage \<Rightarrow> challenge \<Rightarrow> turn" where
  "handle_challenge stg ch =
     (case stg of
        Initial \<Rightarrow>
          let has_dig_realm = challenge_realm ch = Some REALM
          in (case challenge_nonce ch of
                Some nce \<Rightarrow>
                  if code ch = ERR_UNAUTHENTICATED \<and> has_dig_realm then SignAgain nce AfterFirstChallenge
                  else Return (Inl (Refused (code ch)))
              | None \<Rightarrow> Return (Inl (Refused (code ch))))
      | AfterFirstChallenge \<Rightarrow>
          (case challenge_nonce ch of
             Some nce \<Rightarrow>
               if code ch = ERR_STALE_NONCE then SignAgain nce AfterReSign
               else Return (Inl (Refused (code ch)))
           | None \<Rightarrow> Return (Inl (Refused (code ch))))
      | AfterReSign \<Rightarrow> Return (Inl (Refused (code ch))))"

definition handle_datagram :: "stage \<Rightarrow> transaction_id \<Rightarrow> bytes \<Rightarrow> turn" where
  "handle_datagram stg expected_txid msg =
     (if length msg < 2 then Return (Inl (Stun Truncated))
      else case read_be16 msg 0 of
        None \<Rightarrow> Panic
      | Some msg_type \<Rightarrow>
          if msg_type = BINDING_SUCCESS then
            (case parse_binding_response msg (Some expected_txid) of
               None \<Rightarrow> Panic
             | Some (Inr addr) \<Rightarrow>
                 if scope_of addr = NeverDialable then Return (Inl (Stun NoMappedAddress)) else Return (Inr addr)
             | Some (Inl e) \<Rightarrow> if e = TransactionIdMismatch then Continue else Return (Inl (Stun e)))
          else if msg_type = BINDING_ERROR then
            (case parse_challenge msg expected_txid of
               None \<Rightarrow> Panic
             | Some (Inr ch) \<Rightarrow> handle_challenge stg ch
             | Some (Inl e) \<Rightarrow> if e = TransactionIdMismatch then Continue else Return (Inl (Stun e)))
          else Return (Inl (Stun (UnexpectedType msg_type))))"

type_synonym signed_run = "io_event list \<times> (signed_query_error + socket_addr) run"

definition emit :: "io_event list \<Rightarrow> signed_run \<Rightarrow> signed_run" where
  "emit es r = (es @ fst r, snd r)"

text \<open>The loop; \<open>k\<close> counts the transaction ids drawn and the datagrams sent so far.\<close>

fun signed_loop ::
  "csprng \<Rightarrow> (nat \<Rightarrow> string option) \<Rightarrow> socket_addr \<Rightarrow> nat \<Rightarrow> stun_signer \<Rightarrow> nat \<Rightarrow> transaction_id \<Rightarrow> stage
   \<Rightarrow> poll list \<Rightarrow> signed_run" where
  "signed_loop fill send_error server deadline signer k txid stg [] = ([], Waiting)"
| "signed_loop fill send_error server deadline signer k txid stg ((now, outcome) # polls) =
     (let remaining = deadline - now
      in if remaining = 0 then ([], Done (Inl (Stun Timeout)))
         else (case outcome of
             RecvFailed e \<Rightarrow> ([Wait remaining], Done (Inl (Stun (Io e))))
           | Elapsed \<Rightarrow> ([Wait remaining], Done (Inl (Stun Timeout)))
           | Datagram d from \<Rightarrow>
               if from \<noteq> server
               then emit [Wait remaining] (signed_loop fill send_error server deadline signer k txid stg polls)
               else (case handle_datagram stg txid (received d) of
                   Continue \<Rightarrow> emit [Wait remaining] (signed_loop fill send_error server deadline signer k txid stg polls)
                 | Return r \<Rightarrow> ([Wait remaining], Done r)
                 | Panic \<Rightarrow> ([Wait remaining], Panicked)
                 | SignAgain nce stg' \<Rightarrow>
                     (case new_transaction_id fill k of
                        None \<Rightarrow> ([Wait remaining], Panicked)
                      | Some txid' \<Rightarrow>
                          let req = encode_signed_request txid' nce signer
                          in (case send_error k of
                                Some e \<Rightarrow> ([Wait remaining, SendTo req server], Done (Inl (Stun (Io e))))
                              | None \<Rightarrow>
                                  emit [Wait remaining, SendTo req server]
                                    (signed_loop fill send_error server deadline signer (Suc k) txid' stg' polls))))))"

text \<open>As in theory Client, \<open>start + timeout\<close> is taken to be representable.\<close>

definition query_reflexive_address_signed ::
  "bool \<Rightarrow> csprng \<Rightarrow> (nat \<Rightarrow> string option) \<Rightarrow> nat \<Rightarrow> socket_addr \<Rightarrow> nat \<Rightarrow> stun_signer \<Rightarrow> poll list \<Rightarrow> signed_run" where
  "query_reflexive_address_signed debug fill send_error start server timeout signer polls =
     (let spki = spki_der signer
      in if \<not> is_valid_spki_der spki then ([], Done (Inl BadChallenge))
         else
           let deadline = start + timeout
           in (case new_transaction_id fill 0 of
                 None \<Rightarrow> ([], Panicked)
               | Some txid \<Rightarrow>
                   (case encode_identity_request debug txid spki of
                      None \<Rightarrow> ([], Panicked)
                    | Some req \<Rightarrow>
                        (case send_error 0 of
                           Some e \<Rightarrow> ([SendTo req server], Done (Inl (Stun (Io e))))
                         | None \<Rightarrow>
                             emit [SendTo req server]
                               (signed_loop fill send_error server deadline signer 1 txid Initial polls)))))"

section \<open>Lemmas\<close>

lemma emit_simps [simp]: "fst (emit es r) = es @ fst r" "snd (emit es r) = snd r"
  by (simp_all add: emit_def)

lemma handle_challenge_no_panic [simp]: "handle_challenge stg ch \<noteq> Panic" "handle_challenge stg ch \<noteq> Continue"
  by (auto simp: handle_challenge_def Let_def split: stage.split option.split)

lemma handle_datagram_no_panic [simp]: "handle_datagram stg t msg \<noteq> Panic"
proof -
  obtain r where "parse_binding_response msg (Some t) = Some r" using parse_response_total by blast
  moreover obtain c where "parse_challenge msg t = Some c" using parse_challenge_total by blast
  moreover have "length msg < 2 \<or> (\<exists>ty. read_be16 msg 0 = Some ty)" using read_be16_total [of 0 msg] by (cases "length msg < 2") auto
  ultimately show ?thesis
    by (auto simp: handle_datagram_def split: sum.splits if_splits)
qed

lemma handle_challenge_sign:
  "handle_challenge stg ch = SignAgain n stg' \<Longrightarrow>
   stg = Initial \<and> stg' = AfterFirstChallenge \<or> stg = AfterFirstChallenge \<and> stg' = AfterReSign"
  by (auto simp: handle_challenge_def Let_def split: stage.splits option.splits if_splits)

lemma handle_datagram_sign:
  "handle_datagram stg t msg = SignAgain n stg' \<Longrightarrow>
   stg = Initial \<and> stg' = AfterFirstChallenge \<or> stg = AfterFirstChallenge \<and> stg' = AfterReSign"
  by (auto simp: handle_datagram_def dest: handle_challenge_sign split: if_splits option.splits sum.splits)

lemma handle_challenge_ok [simp]: "handle_challenge stg ch \<noteq> Return (Inr a)"
  by (auto simp: handle_challenge_def Let_def split: stage.splits option.splits)

lemma handle_datagram_ok:
  "handle_datagram stg t msg = Return (Inr a) \<Longrightarrow>
   parse_binding_response msg (Some t) = Some (Inr a) \<and> is_usable_reflexive_addr a"
  by (auto simp: handle_datagram_def is_usable_reflexive_addr_def split: if_splits option.splits sum.splits)

text \<open>The datagrams in a trace, and how many more each stage may send.\<close>

definition datagrams :: "io_event list \<Rightarrow> (bytes \<times> socket_addr) list" where
  "datagrams = List.map_filter (\<lambda>e. case e of SendTo d s \<Rightarrow> Some (d, s) | Wait _ \<Rightarrow> None)"

lemma datagrams_simps [simp]:
  "datagrams [] = []" "datagrams (SendTo d s # es) = (d, s) # datagrams es" "datagrams (Wait w # es) = datagrams es"
  by (simp_all add: datagrams_def)

fun sends_left :: "stage \<Rightarrow> nat" where
  "sends_left Initial = 2"
| "sends_left AfterFirstChallenge = 1"
| "sends_left AfterReSign = 0"

lemma sends_left_sign: "handle_datagram stg t msg = SignAgain n stg' \<Longrightarrow> sends_left stg = Suc (sends_left stg')"
  by (auto dest: handle_datagram_sign)

text \<open>A trace of signed requests, the \<open>i\<close>-th under the \<open>(k + i)\<close>-th transaction id drawn.\<close>

fun signed_trace :: "csprng \<Rightarrow> stun_signer \<Rightarrow> socket_addr \<Rightarrow> nat \<Rightarrow> (bytes \<times> socket_addr) list \<Rightarrow> bool" where
  "signed_trace fill signer server k [] \<longleftrightarrow> True"
| "signed_trace fill signer server k ((d, s) # ds) \<longleftrightarrow>
     s = server \<and> (\<exists>t n. new_transaction_id fill k = Some t \<and> d = encode_signed_request t n signer)
     \<and> signed_trace fill signer server (Suc k) ds"

text \<open>One turn, as a table over what the outcome of the wait makes the loop do.\<close>

definition act :: "socket_addr \<Rightarrow> stage \<Rightarrow> transaction_id \<Rightarrow> recv \<Rightarrow> turn" where
  "act server stg txid outcome =
     (case outcome of
        RecvFailed e \<Rightarrow> Return (Inl (Stun (Io e)))
      | Elapsed \<Rightarrow> Return (Inl (Stun Timeout))
      | Datagram d from \<Rightarrow> if from \<noteq> server then Continue else handle_datagram stg txid (received d))"

lemma signed_loop_Cons:
  "signed_loop fill send_error server deadline signer k txid stg (p # polls) =
     (if deadline \<le> fst p then ([], Done (Inl (Stun Timeout)))
      else emit [Wait (deadline - fst p)]
        (case act server stg txid (snd p) of
           Continue \<Rightarrow> signed_loop fill send_error server deadline signer k txid stg polls
         | Return r \<Rightarrow> ([], Done r)
         | Panic \<Rightarrow> ([], Panicked)
         | SignAgain n stg' \<Rightarrow>
             (case new_transaction_id fill k of
                None \<Rightarrow> ([], Panicked)
              | Some t \<Rightarrow> emit [SendTo (encode_signed_request t n signer) server]
                  (case send_error k of
                     Some e \<Rightarrow> ([], Done (Inl (Stun (Io e))))
                   | None \<Rightarrow> signed_loop fill send_error server deadline signer (Suc k) t stg' polls))))"
  by (cases p; cases "snd p")
    (auto simp: act_def emit_def Let_def split: turn.split option.split)

lemma act_no_panic [simp]: "act server stg t o' \<noteq> Panic"
  by (auto simp: act_def split: recv.split)

lemma act_sign: "act server stg t o' = SignAgain n stg' \<Longrightarrow> sends_left stg = Suc (sends_left stg')"
  by (auto simp: act_def dest: sends_left_sign split: recv.splits if_splits)

lemma act_ok:
  "act server stg t o' = Return (Inr a) \<Longrightarrow>
   \<exists>d. o' = Datagram d server \<and> parse_binding_response (received d) (Some t) = Some (Inr a) \<and> is_usable_reflexive_addr a"
  by (auto simp: act_def dest: handle_datagram_ok split: recv.splits if_splits)

lemma signed_loop_trace:
  "signed_trace fill signer server k (datagrams (fst (signed_loop fill send_error server deadline signer k txid stg polls)))
   \<and> length (datagrams (fst (signed_loop fill send_error server deadline signer k txid stg polls))) \<le> sends_left stg"
proof (induction polls arbitrary: k txid stg)
  case (Cons p polls)
  show ?case
  proof (cases "act server stg txid (snd p)")
    case (SignAgain n stg')
    with Cons.IH act_sign [OF SignAgain] show ?thesis
      by (auto simp: signed_loop_Cons split: option.split)
  qed (use Cons.IH in \<open>auto simp: signed_loop_Cons\<close>)
qed simp

lemma signed_loop_waits:
  "Wait w \<in> set (fst (signed_loop fill send_error server deadline signer k txid stg polls)) \<Longrightarrow>
   \<exists>p \<in> set polls. w = deadline - fst p \<and> 0 < w"
proof (induction polls arbitrary: k txid stg)
  case (Cons p polls)
  then show ?case
    by (cases "act server stg txid (snd p)") (fastforce simp: signed_loop_Cons split: if_splits option.splits)+
qed simp

text \<open>A run that does not end in a panic, unless the random source fails.\<close>

lemma signed_loop_no_panic:
  "\<forall>j < k + sends_left stg. new_transaction_id fill j \<noteq> None \<Longrightarrow>
   snd (signed_loop fill send_error server deadline signer k txid stg polls) \<noteq> Panicked"
proof (induction polls arbitrary: k txid stg)
  case (Cons p polls)
  show ?case
  proof (cases "act server stg txid (snd p)")
    case (SignAgain n stg')
    then have left: "sends_left stg = Suc (sends_left stg')" by (rule act_sign)
    then have "k < k + sends_left stg" by simp
    then have "new_transaction_id fill k \<noteq> None" using Cons.prems by blast
    then obtain t where "new_transaction_id fill k = Some t" by blast
    then show ?thesis
      using Cons.IH [of "Suc k" stg'] Cons.prems SignAgain left
      by (auto simp: signed_loop_Cons split: option.split)
  qed (use Cons in \<open>auto simp: signed_loop_Cons\<close>)
qed simp

text \<open>Where an address comes from.\<close>

definition vouched :: "socket_addr \<Rightarrow> nat \<Rightarrow> poll list \<Rightarrow> transaction_id \<Rightarrow> socket_addr \<Rightarrow> bool" where
  "vouched server deadline polls t a \<longleftrightarrow>
     (\<exists>now d. (now, Datagram d server) \<in> set polls \<and> now < deadline
        \<and> parse_binding_response (received d) (Some t) = Some (Inr a)) \<and> is_usable_reflexive_addr a"

lemma vouched_Cons: "vouched server deadline polls t a \<Longrightarrow> vouched server deadline (p # polls) t a"
  by (auto simp: vouched_def)

lemma signed_loop_ok:
  "snd (signed_loop fill send_error server deadline signer k txid stg polls) = Done (Inr a) \<Longrightarrow>
   vouched server deadline polls txid a
   \<or> (\<exists>j t. j < k + sends_left stg \<and> new_transaction_id fill j = Some t \<and> vouched server deadline polls t a)"
proof (induction polls arbitrary: k txid stg)
  case (Cons p polls)
  from Cons.prems have now: "fst p < deadline" by (auto simp: signed_loop_Cons split: if_splits)
  show ?case
  proof (cases "act server stg txid (snd p)")
    case Continue
    with Cons.prems now have "snd (signed_loop fill send_error server deadline signer k txid stg polls) = Done (Inr a)"
      by (simp add: signed_loop_Cons)
    from Cons.IH [OF this] show ?thesis using vouched_Cons by blast
  next
    case (Return r)
    with Cons.prems now have "r = Inr a" by (simp add: signed_loop_Cons)
    from act_ok [OF Return [unfolded this]] now show ?thesis
      by (cases p) (auto simp: vouched_def)
  next
    case (SignAgain n stg')
    then obtain t where t: "new_transaction_id fill k = Some t"
      "snd (signed_loop fill send_error server deadline signer (Suc k) t stg' polls) = Done (Inr a)"
      using Cons.prems now by (auto simp: signed_loop_Cons split: option.splits)
    have left: "sends_left stg = Suc (sends_left stg')" by (rule act_sign [OF SignAgain])
    from Cons.IH [OF t(2)] show ?thesis
    proof
      assume "vouched server deadline polls t a"
      then show ?thesis using t(1) left vouched_Cons by (intro disjI2 exI [of _ k] exI [of _ t]) simp
    next
      assume "\<exists>j t. j < Suc k + sends_left stg' \<and> new_transaction_id fill j = Some t \<and> vouched server deadline polls t a"
      then show ?thesis using left vouched_Cons by fastforce
    qed
  qed simp
qed simp

text \<open>Turns the exchange passes over: foreign datagrams, and replies to an earlier request.\<close>

definition passed_over :: "socket_addr \<Rightarrow> nat \<Rightarrow> transaction_id \<Rightarrow> poll \<Rightarrow> bool" where
  "passed_over server deadline t p \<longleftrightarrow>
     fst p < deadline
     \<and> (\<exists>d from. snd p = Datagram d from
          \<and> (from \<noteq> server
             \<or> parse_binding_response (received d) (Some t) = Some (Inl TransactionIdMismatch)
             \<or> parse_challenge (received d) t = Some (Inl TransactionIdMismatch)))"

lemma mismatch_type:
  "parse_binding_response msg (Some t) = Some (Inl TransactionIdMismatch) \<Longrightarrow>
     2 \<le> length msg \<and> read_be16 msg 0 = Some BINDING_SUCCESS"
  "parse_challenge msg t = Some (Inl TransactionIdMismatch) \<Longrightarrow>
     2 \<le> length msg \<and> read_be16 msg 0 = Some BINDING_ERROR"
proof -
  have short: "20 \<le> length msg \<or> length msg < 20" by linarith
  {
    assume P: "parse_binding_response msg (Some t) = Some (Inl TransactionIdMismatch)"
    with short have "20 \<le> length msg" by (auto simp: parse_response_short)
    then obtain ty len ck u rest where m: "msg = header ty len ck u @ rest" by (rule header_split)
    from P show "2 \<le> length msg \<and> read_be16 msg 0 = Some BINDING_SUCCESS"
      by (cases "ty = BINDING_SUCCESS") (auto simp: m parse_response_header header_reads split: if_splits)
  next
    assume P: "parse_challenge msg t = Some (Inl TransactionIdMismatch)"
    with short have "20 \<le> length msg" by (auto simp: parse_challenge_short)
    then obtain ty len ck u rest where m: "msg = header ty len ck u @ rest" by (rule header_split)
    from P show "2 \<le> length msg \<and> read_be16 msg 0 = Some BINDING_ERROR"
      by (auto simp: m parse_challenge_header header_reads split: if_splits)
  }
qed

lemma message_types [simp]: "BINDING_ERROR \<noteq> BINDING_SUCCESS" "BINDING_SUCCESS \<noteq> BINDING_ERROR"
  by (simp_all add: BINDING_ERROR_def BINDING_SUCCESS_def)

lemma act_passed_over: "passed_over server deadline t p \<Longrightarrow> act server stg t (snd p) = Continue"
  using mismatch_type [of "received _" t]
  by (fastforce simp: passed_over_def act_def handle_datagram_def)

lemma passed_over_time: "passed_over server deadline t p \<Longrightarrow> fst p < deadline"
  by (simp add: passed_over_def)

lemma signed_loop_passed_over:
  "list_all (passed_over server deadline t) ps \<Longrightarrow>
   snd (signed_loop fill send_error server deadline signer k t stg (ps @ polls))
     = snd (signed_loop fill send_error server deadline signer k t stg polls)"
proof (induction ps)
  case (Cons p ps)
  then have "passed_over server deadline t p" by simp
  from act_passed_over [OF this] passed_over_time [OF this] Cons show ?case by (simp add: signed_loop_Cons)
qed simp

text \<open>A challenge, a stale nonce and a success from the server, each under the current id.\<close>

lemma received_challenge:
  assumes "nonce_sized raw_nonce" and "encode_challenge t c raw_nonce = Some d"
  shows "received d = d" "2 \<le> length d" "read_be16 d 0 = Some BINDING_ERROR"
proof -
  obtain reason where r: "reason_phrase c = Some reason"
    and d: "d = header BINDING_ERROR (of_nat (length (challenge_area c reason raw_nonce))) MAGIC_COOKIE t
       @ challenge_area c reason raw_nonce"
    using assms(2) by (auto simp: encode_challenge_eq)
  have "length (challenge_area c reason raw_nonce) \<le> 100"
    using reason_phrase_some [OF r] pad4_less [of "length reason"]
    by (simp add: challenge_area_length [OF assms(1)] split: option.split)
  then show "received d = d" "2 \<le> length d" "read_be16 d 0 = Some BINDING_ERROR"
    by (simp_all add: d received_def header_reads)
qed

lemma act_challenge:
  assumes "length raw = NONCE_LEN" and "encode_challenge t c (Some raw) = Some d"
  shows "act server stg t (Datagram d server) =
    handle_challenge stg \<lparr>code = c, challenge_realm = Some REALM, challenge_nonce = Some (as_bytes (base64url_encode raw))\<rparr>"
proof -
  have sized: "nonce_sized (Some raw)" using assms(1) by (simp add: nonce_sized_def)
  show ?thesis
    using received_challenge [OF sized assms(2)] parse_encode_challenge [OF sized assms(2)]
    by (simp add: act_def handle_datagram_def)
qed

lemma act_success:
  assumes "is_usable_reflexive_addr a"
  shows "act server stg t (Datagram (encode_binding_success t a) server) =
    Return (Inr (sock_new (fold_ip (sock_ip a)) (sock_port a)))"
proof -
  let ?d = "encode_binding_success t a"
  have "2 \<le> length ?d" "read_be16 ?d 0 = Some BINDING_SUCCESS"
    by (simp_all add: encode_success_header Let_def header_reads)
  then show ?thesis
    using assms usable_folded [of a] parse_encode_success [of t a]
    by (simp add: act_def handle_datagram_def is_usable_reflexive_addr_def)
qed

lemma query_signed_result:
  assumes "is_valid_spki_der (spki_der signer)" and "new_transaction_id fill 0 = Some t" and "send_error 0 = None"
  shows "query_reflexive_address_signed debug fill send_error start server timeout signer polls =
    emit [SendTo (request_with t (identity_attr (spki_der signer))) server]
      (signed_loop fill send_error server (start + timeout) signer 1 t Initial polls)"
  using assms by (simp add: query_reflexive_address_signed_def encode_identity_eq Let_def)

section \<open>Properties\<close>

text \<open>C24: at most three datagrams. Whatever the network does, with a well-shaped key and entropy for the
  first id, the exchange sends to the queried server only: first the identity request under the
  first id, then at most two signed requests, each under a transaction id of its own, drawn next; and
  when the clock never reads earlier than at the start, every timer is positive and at most the
  caller's one timeout.\<close>
theorem signed_query_io:
  fixes debug :: bool and send_error :: "nat \<Rightarrow> string option" and server :: socket_addr and timeout :: nat
  assumes "is_valid_spki_der (spki_der signer)" and "new_transaction_id fill 0 = Some t0"
    and "\<forall>p \<in> set polls. start \<le> fst p"
  defines "io \<equiv> fst (query_reflexive_address_signed debug fill send_error start server timeout signer polls)"
  shows "\<exists>ds. datagrams io = (the (encode_identity_request debug t0 (spki_der signer)), server) # ds
      \<and> length ds \<le> 2 \<and> signed_trace fill signer server 1 ds
    \<and> (\<forall>w. Wait w \<in> set io \<longrightarrow> 0 < w \<and> w \<le> timeout)"
proof (cases "send_error 0")
  case (Some e)
  then show ?thesis
    using assms by (simp add: io_def query_reflexive_address_signed_def encode_identity_eq Let_def)
next
  case None
  let ?loop = "signed_loop fill send_error server (start + timeout) signer 1 t0 Initial polls"
  have "0 < w \<and> w \<le> timeout" if "Wait w \<in> set (fst ?loop)" for w
    using signed_loop_waits [OF that] assms(3) by fastforce
  then show ?thesis
    using query_signed_result [where polls = polls and send_error = send_error, OF assms(1,2) None]
      signed_loop_trace [of fill signer server 1 send_error "start + timeout" t0 Initial polls]
    by (auto simp: io_def encode_identity_eq [OF assms(1)])
qed

theorem signed_query_io_witness:
  "\<exists>ds. datagrams (fst (query_reflexive_address_signed True example_fill (\<lambda>_. None) 100 (SockV4 (Ipv4 9 9 9 9) 3478)
      50 example_signer [(120, Elapsed)]))
    = (the (encode_identity_request True (Txid (replicate 12 0)) (spki_der example_signer)), SockV4 (Ipv4 9 9 9 9) 3478) # ds
    \<and> length ds \<le> 2"
  using signed_query_io [where fill = example_fill and signer = example_signer
      and ?t0.0 = "Txid (replicate 12 0)" and polls = "[(120, Elapsed)]" and start = 100 and timeout = 50
      and debug = True and send_error = "\<lambda>_. None" and server = "SockV4 (Ipv4 9 9 9 9) 3478"]
  by auto

text \<open>The exchange never panics on what the network sends. With entropy for three transaction ids,
  no sequence of datagrams, socket errors and clock readings, and no signer, makes it panic, with or
  without debug assertions; and a key of the wrong shape ends it before anything is sent.\<close>
theorem signed_query_never_panics:
  assumes "\<forall>j < 3. new_transaction_id fill j \<noteq> None"
  shows "snd (query_reflexive_address_signed debug fill send_error start server timeout signer polls) \<noteq> Panicked
    \<and> (query_reflexive_address_signed debug fill send_error start server timeout signer polls = ([], Done (Inl BadChallenge))
        \<longleftrightarrow> \<not> is_valid_spki_der (spki_der signer))"
proof (cases "is_valid_spki_der (spki_der signer)")
  case False
  then show ?thesis by (simp add: query_reflexive_address_signed_def)
next
  case True
  obtain t where t: "new_transaction_id fill 0 = Some t" using assms by fastforce
  show ?thesis
  proof (cases "send_error 0")
    case (Some e)
    then show ?thesis
      using True t by (simp add: query_reflexive_address_signed_def encode_identity_eq Let_def)
  next
    case None
    have "\<forall>j < 1 + sends_left Initial. new_transaction_id fill j \<noteq> None" using assms by simp
    from signed_loop_no_panic [OF this] show ?thesis
      by (auto simp: query_signed_result [where send_error = send_error, OF True t None] True emit_def)
  qed
qed

theorem signed_query_never_panics_witness:
  "snd (query_reflexive_address_signed True example_fill (\<lambda>_. None) 100 (SockV4 (Ipv4 9 9 9 9) 3478) 50 example_signer
     [(120, Datagram [1, 1, 0] (SockV4 (Ipv4 9 9 9 9) 3478))]) \<noteq> Panicked"
  using signed_query_never_panics [of example_fill] by simp

text \<open>When the signed client believes an address. \<open>Ok(a)\<close> means that one of the polled datagrams
  came from the queried server before the deadline and parses, under one of the at most three
  transaction ids this exchange drew, to \<open>a\<close>, which is usable.\<close>
theorem signed_query_ok:
  assumes "snd (query_reflexive_address_signed debug fill send_error start server timeout signer polls) = Done (Inr a)"
  shows "\<exists>j t now d. j < 3 \<and> new_transaction_id fill j = Some t
    \<and> (now, Datagram d server) \<in> set polls \<and> now < start + timeout
    \<and> parse_binding_response (received d) (Some t) = Some (Inr a) \<and> is_usable_reflexive_addr a"
proof -
  have "is_valid_spki_der (spki_der signer)"
    using assms by (cases "is_valid_spki_der (spki_der signer)") (simp_all add: query_reflexive_address_signed_def)
  moreover obtain t where "new_transaction_id fill 0 = Some t" "send_error 0 = None"
    using assms calculation
    by (auto simp: query_reflexive_address_signed_def encode_identity_eq Let_def split: option.splits)
  ultimately have ok: "snd (signed_loop fill send_error server (start + timeout) signer 1 t Initial polls) = Done (Inr a)"
    using assms by (simp add: query_signed_result)
  have "1 + sends_left Initial = 3" by simp
  then obtain j u
    where "j < 3" "new_transaction_id fill j = Some u" "vouched server (start + timeout) polls u a"
    using signed_loop_ok [OF ok] \<open>new_transaction_id fill 0 = Some t\<close> by (metis zero_less_numeral)
  then show ?thesis unfolding vouched_def by blast
qed

lemma exchange:
  assumes "is_valid_spki_der (spki_der signer)"
    and "new_transaction_id fill 0 = Some t0" and "new_transaction_id fill 1 = Some t1"
    and "send_error 0 = None" and "send_error 1 = None"
    and "length raw = NONCE_LEN" and "encode_challenge t0 401 (Some raw) = Some challenge"
    and "list_all (passed_over server (start + timeout) t0) before" and "now1 < start + timeout"
  shows "snd (query_reflexive_address_signed debug fill send_error start server timeout signer
      (before @ (now1, Datagram challenge server) # polls))
    = snd (signed_loop fill send_error server (start + timeout) signer 2 t1 AfterFirstChallenge polls)"
  using assms(3,5,8,9)
  by (simp add: query_signed_result [where send_error = send_error, OF assms(1,2,4)] signed_loop_passed_over signed_loop_Cons
      act_challenge [OF assms(6,7)] handle_challenge_def wire_consts numeral_2_eq_2)

text \<open>C26: an honest exchange succeeds. Whatever foreign datagrams and late replies arrive in between, when
  the server challenges the identity request and, before the deadline, answers the signed request with
  a usable address, the client returns that address (folded, port unchanged).\<close>
theorem signed_exchange_succeeds:
  assumes "is_valid_spki_der (spki_der signer)"
    and "new_transaction_id fill 0 = Some t0" and "new_transaction_id fill 1 = Some t1"
    and "send_error 0 = None" and "send_error 1 = None"
    and "length raw = NONCE_LEN" and "encode_challenge t0 401 (Some raw) = Some challenge"
    and "list_all (passed_over server (start + timeout) t0) before" and "now1 < start + timeout"
    and "list_all (passed_over server (start + timeout) t1) between" and "now2 < start + timeout"
    and "is_usable_reflexive_addr a"
  shows "snd (query_reflexive_address_signed debug fill send_error start server timeout signer
      (before @ (now1, Datagram challenge server) # between @ (now2, Datagram (encode_binding_success t1 a) server) # rest))
    = Done (Inr (sock_new (fold_ip (sock_ip a)) (sock_port a)))"
  using assms(10-12)
  by (simp add: exchange [OF assms(1-9)] signed_loop_passed_over signed_loop_Cons act_success)

abbreviation example_server :: socket_addr where
  "example_server \<equiv> SockV4 (Ipv4 9 9 9 9) 3478"

definition example_id :: "nat \<Rightarrow> transaction_id" where
  "example_id k = Txid (replicate 12 (of_nat k))"

declare example_fill_txid [simp del]

lemma example_fill_id [simp]: "new_transaction_id example_fill k = Some (example_id k)"
  by (simp only: example_fill_txid example_id_def)

definition example_raw :: bytes where "example_raw = replicate 20 7"

lemma example_raw_length [simp]: "length example_raw = NONCE_LEN"
  by (simp add: example_raw_def NONCE_LEN_def)

definition example_challenge :: "nat \<Rightarrow> u16 \<Rightarrow> bytes" where
  "example_challenge k c = the (encode_challenge (example_id k) c (Some example_raw))"

lemma example_challenge_eq [simp]:
  "encode_challenge (example_id k) 401 (Some example_raw) = Some (example_challenge k 401)"
  "encode_challenge (example_id k) 438 (Some example_raw) = Some (example_challenge k 438)"
  by (simp_all add: example_challenge_def encode_challenge_eq reason_phrase_def wire_consts)

abbreviation example_mapped :: socket_addr where
  "example_mapped \<equiv> SockV4 (Ipv4 8 8 4 4) 9444"

lemma example_mapped_usable [simp]: "is_usable_reflexive_addr example_mapped"
  by (simp add: is_usable_reflexive_addr_def scope_of_def scope_of_ip_def)

theorem signed_query_ok_witness:
  "\<exists>j t now d. j < (3 :: nat) \<and> new_transaction_id example_fill j = Some t
    \<and> (now, Datagram d example_server) \<in> set [(120 :: nat, Datagram (encode_binding_success (example_id 0) example_mapped) example_server)]
    \<and> now < 100 + 50
    \<and> parse_binding_response (received d) (Some t) = Some (Inr example_mapped)
    \<and> is_usable_reflexive_addr example_mapped"
proof (rule signed_query_ok)
  show "snd (query_reflexive_address_signed True example_fill (\<lambda>_. None) 100 example_server 50 example_signer
      [(120, Datagram (encode_binding_success (example_id 0) example_mapped) example_server)])
    = Done (Inr example_mapped)"
    by (simp add: query_signed_result [where t = "example_id 0"] signed_loop_Cons act_success)
qed

theorem signed_exchange_succeeds_witness:
  "snd (query_reflexive_address_signed True example_fill (\<lambda>_. None) 100 example_server 50 example_signer
      ([(105, Datagram [1] (SockV4 (Ipv4 6 6 6 6) 1))] @ (110, Datagram (example_challenge 0 401) example_server)
       # [] @ (120, Datagram (encode_binding_success (example_id 1) example_mapped) example_server) # []))
   = Done (Inr (sock_new (fold_ip (sock_ip example_mapped)) (sock_port example_mapped)))"
  by (rule signed_exchange_succeeds [where raw = example_raw])
    (simp_all add: passed_over_def)+

text \<open>One stale nonce is recovered from. When the server answers the signed request with 438 and a new
  nonce, the client signs again, and if the server then answers with a usable address in time, returns
  it.\<close>
theorem signed_exchange_recovers_from_stale:
  assumes "is_valid_spki_der (spki_der signer)"
    and "new_transaction_id fill 0 = Some t0" and "new_transaction_id fill 1 = Some t1"
    and "new_transaction_id fill 2 = Some t2" and "\<forall>j < 3. send_error j = None"
    and "length raw = NONCE_LEN" and "encode_challenge t0 401 (Some raw) = Some challenge"
    and "length raw' = NONCE_LEN" and "encode_challenge t1 438 (Some raw') = Some stale"
    and "now1 < start + timeout" and "now2 < start + timeout" and "now3 < start + timeout"
    and "is_usable_reflexive_addr a"
  shows "snd (query_reflexive_address_signed debug fill send_error start server timeout signer
      ((now1, Datagram challenge server) # (now2, Datagram stale server)
       # (now3, Datagram (encode_binding_success t2 a) server) # rest))
    = Done (Inr (sock_new (fold_ip (sock_ip a)) (sock_port a)))"
proof -
  have send: "send_error 0 = None" "send_error 1 = None" "send_error 2 = None" using assms(5) by simp_all
  show ?thesis
    using exchange [where before = "[]" and debug = debug and send_error = send_error,
        OF assms(1-3) send(1,2) assms(6,7) _ assms(10)] assms(4,11-13) send(3)
    by (simp add: signed_loop_Cons act_challenge [OF assms(8,9)] handle_challenge_def wire_consts act_success)
qed

theorem signed_exchange_recovers_from_stale_witness:
  "snd (query_reflexive_address_signed True example_fill (\<lambda>_. None) 100 example_server 50 example_signer
      ((110, Datagram (example_challenge 0 401) example_server) # (115, Datagram (example_challenge 1 438) example_server)
       # (120, Datagram (encode_binding_success (example_id 2) example_mapped) example_server) # []))
   = Done (Inr (sock_new (fold_ip (sock_ip example_mapped)) (sock_port example_mapped)))"
  by (rule signed_exchange_recovers_from_stale [where raw = example_raw and raw' = example_raw])
    simp_all+

text \<open>A second 401 is a failure. SPEC.md section 14.4 promises that a flow re-balanced to a replica
  with another secret costs one 401 re-challenge and is never a failure; a client whose signed request
  is answered with a fresh 401 challenge gives up with \<open>Refused 401\<close> and sends nothing more.\<close>
theorem second_challenge_refused:
  assumes "is_valid_spki_der (spki_der signer)"
    and "new_transaction_id fill 0 = Some t0" and "new_transaction_id fill 1 = Some t1"
    and "send_error 0 = None" and "send_error 1 = None"
    and "length raw = NONCE_LEN" and "encode_challenge t0 401 (Some raw) = Some challenge"
    and "length raw' = NONCE_LEN" and "encode_challenge t1 401 (Some raw') = Some challenge'"
    and "now1 < start + timeout" and "now2 < start + timeout"
  shows "snd (query_reflexive_address_signed debug fill send_error start server timeout signer
      ((now1, Datagram challenge server) # (now2, Datagram challenge' server) # rest)) = Done (Inl (Refused 401))"
  using exchange [where before = "[]" and debug = debug and send_error = send_error,
      OF assms(1-7) _ assms(10)] assms(11)
  by (simp add: signed_loop_Cons act_challenge [OF assms(8,9)] handle_challenge_def wire_consts)

theorem second_challenge_refused_witness:
  "snd (query_reflexive_address_signed True example_fill (\<lambda>_. None) 100 example_server 50 example_signer
      ((110, Datagram (example_challenge 0 401) example_server) # (115, Datagram (example_challenge 1 401) example_server) # []))
   = Done (Inl (Refused 401))"
  by (rule second_challenge_refused [where raw = example_raw and raw' = example_raw])
    simp_all+

text \<open>A stray message of another type is fatal. SPEC.md section 14.9 has the client ignore any response
  whose transaction id does not match; a datagram from the server's address with any other message
  type ends the exchange whatever id it carries, because the type is looked at before the id.\<close>
theorem foreign_type_ends_exchange:
  assumes "is_valid_spki_der (spki_der signer)" and "new_transaction_id fill 0 = Some t0" and "send_error 0 = None"
    and "ty \<noteq> BINDING_SUCCESS" and "ty \<noteq> BINDING_ERROR" and "u \<noteq> t0" and "now < start + timeout"
  shows "snd (query_reflexive_address_signed debug fill send_error start server timeout signer
      ((now, Datagram (header ty len MAGIC_COOKIE u) server) # rest)) = Done (Inl (Stun (UnexpectedType ty)))"
  using assms(4,5,7) header_reads(1) [of ty len MAGIC_COOKIE u "[]"]
  by (simp add: query_signed_result [where send_error = send_error, OF assms(1-3)] signed_loop_Cons act_def
      handle_datagram_def received_def)

theorem foreign_type_ends_exchange_witness:
  "snd (query_reflexive_address_signed True example_fill (\<lambda>_. None) 100 example_server 50 example_signer
      ((110, Datagram (header 0x0002 0 MAGIC_COOKIE (example_id 9)) example_server) # []))
   = Done (Inl (Stun (UnexpectedType 0x0002)))"
proof (rule foreign_type_ends_exchange)
  show "example_id 9 \<noteq> example_id 0" by (simp add: example_id_def Txid_inject)
qed (simp_all add: BINDING_SUCCESS_def BINDING_ERROR_def)

end
