(* ===== verification/Server.thy ===== *)
theory Server
  imports SignedClient
begin

text \<open>
  The server of SPEC.md section 14.5, as the crate's functions compose to one: classify, check the
  nonce of a signed request, decide through the reference flow, and answer with the encoders. The
  crate ships the functions and documents this order (a server crate runs it); here the composition is
  a specification, over which the parts are shown to fit together end to end with both clients. The
  response limiter between classification and the nonce check only drops datagrams and is left out.
\<close>

section \<open>The composition\<close>

definition carry_out ::
  "mac \<Rightarrow> nonce_issuer \<Rightarrow> socket_addr \<Rightarrow> u64 \<Rightarrow> transaction_id \<Rightarrow> server_decision \<Rightarrow> bytes option" where
  "carry_out hmac issuer src now t dec =
     (case dec of
        Answer _ \<Rightarrow> Some (encode_binding_success t src)
      | Challenge c \<Rightarrow> do { raw \<leftarrow> issue hmac issuer src now; encode_challenge t c (Some raw) }
      | Refuse c \<Rightarrow> encode_challenge t c None)"

text \<open>\<open>Some None\<close> is silence, \<open>Some (Some r)\<close> the reply \<open>r\<close>, \<open>None\<close> a panic.\<close>

definition server_reply ::
  "mac \<Rightarrow> verifier \<Rightarrow> nonce_issuer \<Rightarrow> credential_mode \<Rightarrow> socket_addr \<Rightarrow> u64 \<Rightarrow> bytes \<Rightarrow> bytes option option" where
  "server_reply hmac ecdsa issuer mode src now d =
     (case classify_request d of
        None \<Rightarrow> None
      | Some (Inl Malformed) \<Rightarrow>
          (case parse_binding_request d of
             Some (Inr t) \<Rightarrow> map_option Some (encode_challenge t 400 None)
           | _ \<Rightarrow> Some None)
      | Some (Inl _) \<Rightarrow> Some None
      | Some (Inr (t, kind)) \<Rightarrow> do {
          nc \<leftarrow> (case kind of
              Signed _ n _ \<Rightarrow> map_option Some (check_nonce hmac issuer n src now)
            | _ \<Rightarrow> Some None);
          (dec, calls) \<leftarrow> reference_server_decide ecdsa mode kind nc t;
          map_option Some (carry_out hmac issuer src now t dec) })"

section \<open>Lemmas\<close>

lemma issue_length: "hmac_sha256_output hmac \<Longrightarrow> \<exists>raw. issue hmac issuer src now = Some raw \<and> length raw = NONCE_LEN"
  by (simp add: issue_eq genuine_length NONCE_LEN_def)

lemma encode_challenge_some:
  "c = 400 \<or> c = 401 \<or> c = 438 \<Longrightarrow> \<exists>r. encode_challenge t c raw_nonce = Some r"
  by (auto simp: encode_challenge_eq reason_phrase_def wire_consts)

text \<open>The decisions the table can reach carry a code the encoder knows.\<close>

lemma decide_codes:
  "decide mode kind nc v = Challenge c \<Longrightarrow> c = 401 \<or> c = 438"
  "decide mode kind nc v = Refuse c \<Longrightarrow> c = 401"
  by (cases kind; auto split: if_splits option.splits sum.splits)+

lemma reference_decide:
  "\<exists>v calls. reference_server_decide ecdsa mode kind nc t = Some (decide mode kind nc v, calls)
     \<and> (\<forall>ident. v = Some (Inr ident) \<longrightarrow>
          (\<exists>spki n sig. kind = Signed spki n sig \<and> nc = Some Fresh \<and> is_valid_spki_der spki
             \<and> signature_valid ecdsa t spki n sig \<and> ident = \<lparr>verified_spki = spki\<rparr>))"
proof (cases "\<exists>spki n sig. kind = Signed spki n sig \<and> nc = Some Fresh")
  case True
  then obtain spki n sig where k: "kind = Signed spki n sig" "nc = Some Fresh" by blast
  show ?thesis
    unfolding k
    by (rule exI [of _ "verify_signed_request ecdsa t (Signed spki n sig)"], rule exI [of _ 1])
      (simp add: reference_server_decide_def verify_signed split: if_splits)
next
  case False
  then show ?thesis by (intro exI [of _ None] exI [of _ 0]) (auto simp: reference_other)
qed

lemma carry_out_some:
  assumes "hmac_sha256_output hmac"
  shows "\<exists>r. carry_out hmac issuer src now t (decide mode kind nc v) = Some r"
proof (cases "decide mode kind nc v")
  case (Challenge c)
  then show ?thesis
    using decide_codes(1) [OF Challenge] issue_length [OF assms, of issuer src now] encode_challenge_some [of c t]
    by (auto simp: carry_out_def)
next
  case (Refuse c)
  then show ?thesis using decide_codes(2) [OF Refuse] encode_challenge_some [of c t None] by (simp add: carry_out_def)
qed (simp add: carry_out_def)

lemma nonce_check_total: "hmac_sha256_output hmac \<Longrightarrow> \<exists>c. check_nonce hmac issuer v src now = Some c"
  by (simp add: nonce_check_eq)

text \<open>What a reply to a classified request is.\<close>

lemma server_reply_classified:
  assumes "hmac_sha256_output hmac" and "classify_request d = Some (Inr (t, kind))"
  shows "\<exists>nc v r. server_reply hmac ecdsa issuer mode src now d = Some (Some r)
    \<and> carry_out hmac issuer src now t (decide mode kind nc v) = Some r
    \<and> (\<forall>ident. v = Some (Inr ident) \<longrightarrow> (\<exists>spki n sig. kind = Signed spki n sig
          \<and> check_nonce hmac issuer n src now = Some Fresh \<and> is_valid_spki_der spki
          \<and> signature_valid ecdsa t spki n sig \<and> ident = \<lparr>verified_spki = spki\<rparr>))"
proof -
  obtain nc where nc: "(case kind of Signed _ n _ \<Rightarrow> map_option Some (check_nonce hmac issuer n src now) | _ \<Rightarrow> Some None) = Some nc"
    using nonce_check_total [OF assms(1)] by (cases kind) fastforce+
  obtain v calls where v: "reference_server_decide ecdsa mode kind nc t = Some (decide mode kind nc v, calls)"
    and ident: "\<forall>ident. v = Some (Inr ident) \<longrightarrow> (\<exists>spki n sig. kind = Signed spki n sig \<and> nc = Some Fresh
        \<and> is_valid_spki_der spki \<and> signature_valid ecdsa t spki n sig \<and> ident = \<lparr>verified_spki = spki\<rparr>)"
    using reference_decide [of ecdsa mode kind nc t] by blast
  obtain r where r: "carry_out hmac issuer src now t (decide mode kind nc v) = Some r"
    using carry_out_some [OF assms(1)] by blast
  have "server_reply hmac ecdsa issuer mode src now d = Some (Some r)"
    by (simp add: server_reply_def assms(2) nc v r)
  moreover have "check_nonce hmac issuer n src now = Some Fresh" if "kind = Signed spki n sig" "nc = Some Fresh" for spki n sig
    using nc that by auto
  ultimately show ?thesis using r ident by blast
qed

lemma server_reply_bare:
  "hmac_sha256_output hmac \<Longrightarrow> classify_request d = Some (Inr (t, Bare)) \<Longrightarrow>
   server_reply hmac ecdsa issuer Advisory src now d = Some (Some (encode_binding_success t src))
   \<and> server_reply hmac ecdsa issuer Required src now d = map_option Some (encode_challenge t 401 None)"
  by (simp add: server_reply_def reference_other carry_out_def)

lemma server_reply_identity:
  "classify_request d = Some (Inr (t, Identity spki)) \<Longrightarrow> issue hmac issuer src now = Some raw \<Longrightarrow>
   server_reply hmac ecdsa issuer mode src now d = map_option Some (encode_challenge t 401 (Some raw))"
  by (simp add: server_reply_def reference_other carry_out_def)

lemma server_reply_signed:
  "classify_request d = Some (Inr (t, Signed spki n sig)) \<Longrightarrow> is_valid_spki_der spki \<Longrightarrow>
   check_nonce hmac issuer n src now = Some Fresh \<Longrightarrow> signature_valid ecdsa t spki n sig \<Longrightarrow>
   server_reply hmac ecdsa issuer mode src now d = Some (Some (encode_binding_success t src))"
  by (simp add: server_reply_def reference_signed_fresh carry_out_def)

lemma server_reply_total:
  assumes "hmac_sha256_output hmac"
  shows "\<exists>r. server_reply hmac ecdsa issuer mode src now d = Some r"
proof -
  obtain c where c: "classify_request d = Some c" using classify_total by blast
  show ?thesis
  proof (cases c)
    case (Inl e)
    then show ?thesis
      using c encode_challenge_some [of 400 _ None]
      by (cases e) (auto simp: server_reply_def split: option.split sum.split)
  next
    case (Inr tk)
    obtain t kind where "tk = (t, kind)" by (rule prod.exhaust)
    with c Inr have "classify_request d = Some (Inr (t, kind))" by simp
    from server_reply_classified [OF assms this] show ?thesis by blast
  qed
qed

text \<open>Sizes: an attribute is part of its area.\<close>

lemma tlvs_member_length: "Attr t v \<in> set (tlvs area) \<Longrightarrow> 4 + length v \<le> length area"
proof (induction area rule: tlvs.induct)
  case (1 a b c d rest)
  then show ?case
    by (auto simp: tlvs.simps Let_def split: if_splits)
qed (simp_all add: tlvs.simps)

lemma values_of_member: "v \<in> set (values_of ty xs) \<longleftrightarrow> Attr ty v \<in> set xs"
proof (induction xs)
  case (Cons x xs)
  then show ?case by (cases x) auto
qed simp

lemma rule_not_bare_identity:
  assumes "classify_rule attrs = Inr kind" and "kind \<noteq> Bare"
  shows "\<exists>v. Attr ATTR_DIG_IDENTITY v \<in> set attrs \<and> length v = 92"
proof -
  have "values_of ATTR_DIG_IDENTITY attrs \<noteq> []" and ok: "list_all identity_ok (values_of ATTR_DIG_IDENTITY attrs)"
    using assms by (auto simp: classify_rule_def classify_acc_def pattern_of_def split: if_splits list.splits)
  then obtain v where "v \<in> set (values_of ATTR_DIG_IDENTITY attrs)" by (metis list.set_intros(1) neq_Nil_conv)
  with ok have "Attr ATTR_DIG_IDENTITY v \<in> set attrs \<and> identity_ok v"
    by (simp add: values_of_member list_all_iff)
  then show ?thesis by (auto simp: identity_ok_def P256_SPKI_LEN_def)
qed

lemma classified_length:
  assumes "classify_request d = Some (Inr (t, kind))"
  shows "20 \<le> length d \<and> (kind \<noteq> Bare \<longrightarrow> 116 \<le> length d)"
proof (cases "length d < 20")
  case True
  with assms show ?thesis by (simp add: classify_request_short)
next
  case False
  then obtain ty len ck u rest where d: "d = header ty len ck u @ rest" by (meson header_split not_less)
  with assms have r: "map_sum id (Pair u) (classify_rule (tlvs (take (unat len) rest))) = Inr (t, kind)"
    by (auto simp: classify_request_header run_request_rule split: if_splits)
  then have "classify_rule (tlvs (take (unat len) rest)) = Inr kind"
    by (cases "classify_rule (tlvs (take (unat len) rest))") auto
  then show ?thesis
    using rule_not_bare_identity tlvs_member_length [of _ _ "take (unat len) rest"] by (fastforce simp: d)
qed

lemma challenge_length_bound:
  assumes "nonce_sized raw" and "encode_challenge t c raw = Some r"
  shows "length r \<le> 88 \<and> (raw = None \<longrightarrow> length r \<le> 44)"
proof -
  obtain reason where reason: "reason_phrase c = Some reason" and r: "length r = 20 + length (challenge_area c reason raw)"
    using assms(2) by (auto simp: encode_challenge_eq)
  have "length reason + pad4 (length reason) \<le> 16"
    using reason_phrase_some [OF reason] pad4_less [of "length reason"] pad4_aligned [of "length reason"] by presburger
  then show ?thesis
    using challenge_area_length [OF assms(1), of c reason] by (auto simp: r split: option.splits)
qed

lemma success_length: "length (encode_binding_success t src) \<le> 44"
  by (simp add: encode_success_header Let_def success_attr_length split: ip_addr.split)

lemma map_sum_Pair:
  "map_sum id (Pair u) x = Inr (t, k) \<longleftrightarrow> u = t \<and> x = Inr k" "map_sum id (Pair u) x = Inl e \<longleftrightarrow> x = Inl e"
  by (cases x; auto)+

text \<open>A classification error is the request parser's own, or a malformed attribute.\<close>

lemma rule_error: "classify_rule attrs = Inl e \<Longrightarrow> e = Malformed"
  by (auto simp: classify_rule_def classify_acc_def pattern_of_def split: if_splits list.splits)

lemma classify_error:
  assumes "classify_request d = Some (Inl e)"
  shows "(\<exists>e'. parse_binding_request d = Some (Inl e') \<and> e = credential_error.Stun e')
    \<or> 20 \<le> length d \<and> (\<exists>t. parse_binding_request d = Some (Inr t)) \<and> e = Malformed"
proof (cases "length d < 20")
  case True
  with assms show ?thesis by (simp add: classify_request_short parse_request_short)
next
  case False
  then obtain ty len ck u rest where d: "d = header ty len ck u @ rest" by (meson header_split not_less)
  show ?thesis
    using assms rule_error by (auto simp: map_sum_Pair d parse_request_header classify_request_header run_request_rule split: if_splits)
qed

lemma classified_parses:
  assumes "classify_request d = Some (Inr (t, kind))"
  shows "parse_binding_request d = Some (Inr t)"
proof -
  have "20 \<le> length d" using classified_length [OF assms] by blast
  then obtain ty len ck u rest where d: "d = header ty len ck u @ rest" by (rule header_split)
  with assms show ?thesis by (auto simp: map_sum_Pair d parse_request_header classify_request_header run_request_rule split: if_splits)
qed

lemma carry_out_length:
  assumes "hmac_sha256_output hmac" and "carry_out hmac issuer src now t (decide mode kind nc v) = Some r"
  shows "length r \<le> 88 \<and> (length r \<le> 44 \<or> kind \<noteq> Bare)"
proof (cases "decide mode kind nc v")
  case (Answer i)
  with assms(2) success_length [of t src] show ?thesis by (auto simp: carry_out_def)
next
  case (Refuse e)
  with assms(2) challenge_length_bound [of None t e r] show ?thesis by (auto simp: carry_out_def nonce_sized_def)
next
  case (Challenge e)
  obtain raw where raw: "issue hmac issuer src now = Some raw" "length raw = NONCE_LEN"
    using issue_length [OF assms(1)] by blast
  with assms(2) Challenge have "encode_challenge t e (Some raw) = Some r" by (simp add: carry_out_def)
  then have "length r \<le> 88" using challenge_length_bound [of "Some raw"] raw(2) by (simp add: nonce_sized_def)
  moreover have "kind \<noteq> Bare" using Challenge by (cases mode) auto
  ultimately show ?thesis by blast
qed

lemma success_names_source:
  "parse_binding_response (encode_binding_success t src) e = Some (Inr a) \<Longrightarrow>
   a = sock_new (fold_ip (sock_ip src)) (sock_port src)"
  using parse_encode_success [of t src]
  by (auto simp: encode_success_header Let_def parse_response_header split: if_splits)

lemma nonce_fresh_genuine:
  assumes "hmac_sha256_output hmac" and "check_nonce hmac issuer v src now = Some Fresh"
  shows "\<exists>b. base64url_decode v = Some (genuine hmac issuer b src) \<and> (b = bucket_of now \<or> b + 1 = bucket_of now)"
proof -
  from assms(2) obtain b where b: "base64url_decode v = Some (genuine hmac issuer b src)"
    by (auto simp: nonce_check_eq [OF assms(1)] split: option.splits if_splits)
  with assms(2) have "age b now = Fresh" by (simp add: nonce_check_genuine [OF assms(1)])
  then have "b = bucket_of now \<or> b + 1 = bucket_of now"
    by (auto simp: age_def algebra_simps split: if_splits)
  with b show ?thesis by blast
qed

section \<open>Properties\<close>

lemma reply_400: "encode_challenge t 400 None = Some r \<Longrightarrow> length r = 40"
  using challenge_area_length [of None 400 "''Bad Request''"]
  by (auto simp: encode_challenge_eq reason_phrase_def wire_consts nonce_sized_def pad4_def)

text \<open>What is malformed has at least one attribute header.\<close>

lemma malformed_length:
  assumes "classify_request d = Some (Inl Malformed)"
  shows "24 \<le> length d"
proof (rule ccontr)
  assume short: "\<not> 24 \<le> length d"
  have "20 \<le> length d" using classify_error [OF assms] by auto
  then obtain ty len ck u rest where d: "d = header ty len ck u @ rest" by (rule header_split)
  with short have "length (take (unat len) rest) < 4" by simp
  then have "tlvs (take (unat len) rest) = []" by (rule tlvs_short)
  with assms show False
    by (auto simp: d classify_request_header run_request_rule classify_rule_def classify_acc_def pattern_of_def
        split: if_splits)
qed

lemma server_reply_sizes:
  assumes "hmac_sha256_output hmac"
  shows "\<exists>reply. server_reply hmac ecdsa issuer mode src now d = Some reply
    \<and> (reply = None \<longleftrightarrow> (\<exists>e. parse_binding_request d = Some (Inl e)))
    \<and> (\<forall>r. reply = Some r \<longrightarrow>
         length r \<le> 88 \<and> (44 < length r \<longrightarrow> 116 \<le> length d) \<and> 5 * length r \<le> 11 * length d
         \<and> (length d < length r \<longrightarrow>
              (\<exists>t. classify_request d = Some (Inr (t, Bare))) \<or> classify_request d = Some (Inl Malformed) \<and> length r = 40))"
proof -
  obtain c where c: "classify_request d = Some c" using classify_total by blast
  show ?thesis
  proof (cases c)
    case (Inl e)
    obtain r where r: "encode_challenge t 400 None = Some (r t)" for t
      using encode_challenge_some [of 400 _ None] by metis
    from c Inl have err: "classify_request d = Some (Inl e)" by simp
    from classify_error [OF err] show ?thesis
    proof (elim disjE exE conjE)
      fix e'
      assume "parse_binding_request d = Some (Inl e')" and "e = credential_error.Stun e'"
      then show ?thesis using err by (simp add: server_reply_def)
    next
      fix t
      assume "parse_binding_request d = Some (Inr t)" and "e = Malformed"
      then show ?thesis
        using err reply_400 [OF r [of t]] malformed_length [of d] by (simp add: server_reply_def r)
    qed
  next
    case (Inr tk)
    obtain t kind where "tk = (t, kind)" by (rule prod.exhaust)
    with c Inr have k: "classify_request d = Some (Inr (t, kind))" by simp
    from server_reply_classified [OF assms k] obtain nc v r where r:
      "server_reply hmac ecdsa issuer mode src now d = Some (Some r)"
      "carry_out hmac issuer src now t (decide mode kind nc v) = Some r" by blast
    have "\<not> (\<exists>e. parse_binding_request d = Some (Inl e))" using classified_parses [OF k] by auto
    then show ?thesis
      using r(1) k carry_out_length [OF assms r(2)] classified_length [OF k] by (cases "kind = Bare") auto
  qed
qed

lemma overrun_reply:
  "length (request_with t [0x80, 0x22, 0, 1]) = 24
   \<and> (\<exists>r. server_reply hmac ecdsa issuer mode src now (request_with t [0x80, 0x22, 0, 1]) = Some (Some r) \<and> length r = 40)"
proof -
  have "parse_binding_request (request_with t [0x80, 0x22, 0, 1]) = Some (Inr t)"
    "classify_request (request_with t [0x80, 0x22, 0, 1]) = Some (Inl Malformed)"
    by (simp_all add: request_with_def parse_request_header classify_header classify_rule_def classify_acc_def
        tlvs.simps u16_of_be_def Let_def)
  moreover obtain r where "encode_challenge t 400 None = Some r" using encode_challenge_some by blast
  ultimately show ?thesis
    using reply_400 by (auto simp: server_reply_def request_with_def)
qed

lemma server_reply_short:
  "hmac_sha256_output hmac \<Longrightarrow> server_reply hmac ecdsa issuer mode src now d = Some (Some r) \<Longrightarrow> length r \<le> 88"
  using server_reply_sizes [of hmac ecdsa issuer mode src now d] by auto

text \<open>C21: what the server path sends, and how it compares with what it was sent. For every datagram, source,
  mode, clock and secret it returns without a panic. Silence answers exactly the datagrams the request parser
  rejects. A reply has at most 88 bytes, one of more than 44 bytes, so any that carries a nonce, answers at
  least 116 bytes, and no reply is more than 2.2 times as long as its request. It is longer than its request
  in two cases only: it answers a bare request, or it is the 40-byte 400 for a malformed one. SPEC.md 14.3.3
  has the second case not happen (a malformed request is taken to carry an identity, and its reply never to be
  larger than what triggered it), but 24 bytes without any credential attribute suffice: an unknown
  attribute that declares one byte more than the datagram has.\<close>
theorem server_reply_bounded:
  assumes "hmac_sha256_output hmac"
  shows "(\<exists>reply. server_reply hmac ecdsa issuer mode src now d = Some reply
    \<and> (reply = None \<longleftrightarrow> (\<exists>e. parse_binding_request d = Some (Inl e)))
    \<and> (\<forall>r. reply = Some r \<longrightarrow>
         length r \<le> 88 \<and> (44 < length r \<longrightarrow> 116 \<le> length d) \<and> 5 * length r \<le> 11 * length d
         \<and> (length d < length r \<longrightarrow>
              (\<exists>t. classify_request d = Some (Inr (t, Bare))) \<or> classify_request d = Some (Inl Malformed) \<and> length r = 40)))
    \<and> (let small = request_with t [0x80, 0x22, 0, 1]
       in length small = 24
          \<and> (\<exists>r. server_reply hmac ecdsa issuer mode src now small = Some (Some r) \<and> length r = 40))"
  using server_reply_sizes [OF assms] overrun_reply by (simp add: Let_def)

theorem server_reply_bounded_witness:
  "\<exists>reply. server_reply example_hmac (\<lambda>_ _ _. True) (from_secret (replicate 32 5)) Required example_mapped 1000 [1, 2, 3] = Some reply"
  using server_reply_bounded [OF example_hmac_output] by blast

lemma server_answer:
  assumes "hmac_sha256_output hmac"
    and "server_reply hmac ecdsa issuer mode src now d = Some (Some r)"
    and "parse_binding_response r e = Some (Inr a)"
  shows "\<exists>t. r = encode_binding_success t src \<and> a = sock_new (fold_ip (sock_ip src)) (sock_port src)
    \<and> (mode = Advisory \<and> classify_request d = Some (Inr (t, Bare))
       \<or> (\<exists>spki n sig b. classify_request d = Some (Inr (t, Signed spki n sig)) \<and> is_valid_spki_der spki
            \<and> ecdsa (drop 26 spki) (signing_message t n spki) sig
            \<and> base64url_decode n = Some (genuine hmac issuer b src) \<and> (b = bucket_of now \<or> b + 1 = bucket_of now)))"
proof -
  have not_challenge: False if "encode_challenge t c raw = Some r" for t c raw
    using that assms(3) by (auto simp: encode_challenge_eq parse_response_header split: if_splits)
  obtain c where c: "classify_request d = Some c" using classify_total by blast
  show ?thesis
  proof (cases c)
    case (Inl err)
    then show ?thesis
      using c assms(2) not_challenge by (auto simp: server_reply_def split: credential_error.splits option.splits sum.splits)
  next
    case (Inr tk)
    obtain t kind where "tk = (t, kind)" by (rule prod.exhaust)
    with c Inr have k: "classify_request d = Some (Inr (t, kind))" by simp
    from server_reply_classified [OF assms(1) k, of ecdsa issuer mode src now] assms(2) obtain nc v
      where r: "carry_out hmac issuer src now t (decide mode kind nc v) = Some r"
        and ident: "\<forall>ident. v = Some (Inr ident) \<longrightarrow> (\<exists>spki n sig. kind = Signed spki n sig
          \<and> check_nonce hmac issuer n src now = Some Fresh \<and> is_valid_spki_der spki
          \<and> signature_valid ecdsa t spki n sig \<and> ident = \<lparr>verified_spki = spki\<rparr>)" by auto
    obtain who where dec: "decide mode kind nc v = Answer who"
      using r not_challenge by (cases "decide mode kind nc v") (auto simp: carry_out_def split: option.splits Option.bind_splits)
    have rt: "r = encode_binding_success t src" using r by (simp add: dec carry_out_def)
    have "a = sock_new (fold_ip (sock_ip src)) (sock_port src)"
      using success_names_source assms(3) unfolding rt .
    moreover have "mode = Advisory \<and> kind = Bare
      \<or> (\<exists>spki n sig b. kind = Signed spki n sig \<and> is_valid_spki_der spki
            \<and> ecdsa (drop 26 spki) (signing_message t n spki) sig
            \<and> base64url_decode n = Some (genuine hmac issuer b src) \<and> (b = bucket_of now \<or> b + 1 = bucket_of now))"
    proof (cases who)
      case None
      then show ?thesis using dec by (cases kind; cases mode) (auto split: if_splits option.splits sum.splits)
    next
      case (Some i)
      then have "v = Some (Inr i)" using dec by (cases kind; cases mode) (auto split: if_splits option.splits sum.splits)
      with ident obtain spki n sig where s: "kind = Signed spki n sig" "check_nonce hmac issuer n src now = Some Fresh"
        "is_valid_spki_der spki" "signature_valid ecdsa t spki n sig" by blast
      from nonce_fresh_genuine [OF assms(1) s(2)] s(1,3,4) show ?thesis
        unfolding signature_valid_def by blast
    qed
    ultimately show ?thesis using rt k by blast
  qed
qed

lemma parse_ok_id:
  assumes "parse_binding_response d (Some t) = Some (Inr a)"
  shows "take 12 (drop 8 d) = txid_bytes t"
proof -
  have "20 \<le> length d" using assms by (rule_tac ccontr) (simp add: parse_response_short)
  then obtain ty len ck u rest where d: "d = header ty len ck u @ rest" by (rule header_split)
  with assms have "u = t" by (auto simp: parse_response_header split: if_splits)
  then show ?thesis by (simp add: d header_def)
qed

lemma classify_ok_id:
  assumes "classify_request d = Some (Inr (t, kind))"
  shows "take 12 (drop 8 d) = txid_bytes t"
proof -
  have "20 \<le> length d" using classified_length [OF assms] by blast
  then obtain ty len ck u rest where d: "d = header ty len ck u @ rest" by (rule header_split)
  then have "u = t" using assms by (auto simp: map_sum_Pair d classify_request_header run_request_rule split: if_splits)
  then show ?thesis by (simp add: d header_def)
qed

text \<open>A success is sent under the id of the request, so a foreign request gets no answer a client takes.\<close>

lemma success_answers_request:
  assumes "hmac_sha256_output hmac" and "server_reply hmac ecdsa issuer mode src now d = Some (Some r)"
    and "parse_binding_response r (Some t) = Some (Inr a)"
  shows "a = sock_new (fold_ip (sock_ip src)) (sock_port src) \<and> take 12 (drop 8 d) = txid_bytes t"
proof -
  obtain u where u: "r = encode_binding_success u src" "a = sock_new (fold_ip (sock_ip src)) (sock_port src)"
      "\<exists>kind. classify_request d = Some (Inr (u, kind))"
    using server_answer [OF assms(1) assms(2) assms(3)] by blast
  have "u = t" using assms(3) unfolding u(1) by (auto simp: encode_success_header Let_def parse_response_header split: if_splits)
  with u show ?thesis using classify_ok_id by blast
qed

lemma reply_received:
  assumes "hmac_sha256_output hmac" and "server_reply hmac ecdsa issuer mode src now d = Some (Some r)"
  shows "received r = r"
  using server_reply_short [OF assms(1) assms(2)] by (simp add: received_def)

text \<open>C8: who is answered. A server in required mode sends an address only to a request whose signature
  verified, under the key it carries, on this transaction id and a nonce that this issuer made for this
  very source in this minute or the last; so a party that cannot receive at its source address, or holds
  no key, is never answered, and in either mode the answer names the source and nothing else.\<close>
theorem required_mode_answers_verified:
  assumes "hmac_sha256_output hmac"
    and "server_reply hmac ecdsa issuer mode src now d = Some (Some r)"
    and "parse_binding_response r e = Some (Inr a)"
  shows "\<exists>t. r = encode_binding_success t src \<and> a = sock_new (fold_ip (sock_ip src)) (sock_port src)
    \<and> (mode = Advisory \<and> classify_request d = Some (Inr (t, Bare))
       \<or> (\<exists>spki n sig b. classify_request d = Some (Inr (t, Signed spki n sig)) \<and> is_valid_spki_der spki
            \<and> ecdsa (drop 26 spki) (signing_message t n spki) sig
            \<and> base64url_decode n = Some (genuine hmac issuer b src) \<and> (b = bucket_of now \<or> b + 1 = bucket_of now)))"
  using assms by (rule server_answer)

lemma classify_bare: "classify_request (encode_binding_request t) = Some (Inr (t, Bare))"
  using classify_request_with [of "[]" t]
  by (simp add: encode_request_header request_with_def tlvs.simps classify_rule_def classify_acc_def pattern_of_def)

theorem required_mode_answers_verified_witness:
  "\<exists>t. encode_binding_success (example_id 0) example_mapped = encode_binding_success t example_mapped
    \<and> example_mapped = sock_new (fold_ip (sock_ip example_mapped)) (sock_port example_mapped)"
proof -
  have "server_reply example_hmac (\<lambda>_ _ _. True) (from_secret (replicate 32 5)) Advisory example_mapped 1000
      (encode_binding_request (example_id 0)) = Some (Some (encode_binding_success (example_id 0) example_mapped))"
    using server_reply_bare [OF example_hmac_output classify_bare] by blast
  moreover have "parse_binding_response (encode_binding_success (example_id 0) example_mapped) (Some (example_id 0))
      = Some (Inr example_mapped)"
    by (simp add: parse_encode_success)
  ultimately show ?thesis
    using required_mode_answers_verified [OF example_hmac_output] by blast
qed

text \<open>Both turns of a handshake, with the datagrams in full: what the client sends first, what it sends
  once challenged with \<open>raw\<close>, and what the server replies to either.\<close>

definition challenged_request :: "transaction_id \<Rightarrow> bytes \<Rightarrow> stun_signer \<Rightarrow> bytes" where
  "challenged_request t raw signer = encode_signed_request t (as_bytes (base64url_encode raw)) signer"

lemma handshake_first_reply:
  assumes "hmac_sha256_output hmac" and "is_valid_spki_der (spki_der signer)"
  obtains raw r0 where "issue hmac issuer src s0 = Some raw" "length raw = NONCE_LEN"
    "encode_challenge t0 401 (Some raw) = Some r0"
    "server_reply hmac ecdsa issuer mode src s0 (request_with t0 (identity_attr (spki_der signer))) = Some (Some r0)"
proof -
  obtain raw where raw: "issue hmac issuer src s0 = Some raw" "length raw = NONCE_LEN"
    using issue_length [OF assms(1)] by blast
  obtain r0 where r0: "encode_challenge t0 401 (Some raw) = Some r0" using encode_challenge_some by blast
  show thesis
    by (rule that [OF raw r0]) (simp add: server_reply_identity [OF classify_identity_request [OF assms(2)] raw(1)] r0)
qed

lemma classify_challenged_request:
  assumes "is_valid_spki_der (spki_der signer)" and "\<forall>m. is_valid_signature_der_len (sign signer m)" and "length raw = NONCE_LEN"
  shows "classify_request (challenged_request t raw signer) = Some (Inr (t, Signed (spki_der signer)
    (as_bytes (base64url_encode raw)) (sign signer (signing_message t (as_bytes (base64url_encode raw)) (spki_der signer)))))"
proof -
  have "length (as_bytes (base64url_encode raw)) < 65000" using assms(3) by (simp add: length_base64url_encode NONCE_LEN_def)
  with classify_signed_request assms(1,2) show ?thesis by (simp add: challenged_request_def encode_signed_eq)
qed

lemma handshake_second_reply:
  assumes "hmac_sha256_output hmac" and "is_valid_spki_der (spki_der signer)"
    and "\<forall>m. is_valid_signature_der_len (sign signer m) \<and> ecdsa (drop 26 (spki_der signer)) m (sign signer m)"
    and "issue hmac issuer src s0 = Some raw" and "s0 \<le> s1" and "unat s1 - unat s0 \<le> 60" and "unat s1 div 60 < 2 ^ 32"
    and "fold_ip (sock_ip src) = fold_ip (sock_ip src')" and "sock_port src = sock_port src'"
  shows "server_reply hmac ecdsa issuer mode src' s1 (challenged_request t1 raw signer)
    = Some (Some (encode_binding_success t1 src'))"
proof (rule server_reply_signed)
  have "length raw = NONCE_LEN" using issue_length [OF assms(1), of issuer src s0] assms(4) by simp
  then show "classify_request (challenged_request t1 raw signer) = Some (Inr (t1, Signed (spki_der signer)
    (as_bytes (base64url_encode raw)) (sign signer (signing_message t1 (as_bytes (base64url_encode raw)) (spki_der signer)))))"
    using assms(2,3) by (intro classify_challenged_request) simp_all
  show "check_nonce hmac issuer (as_bytes (base64url_encode raw)) src' s1 = Some Fresh"
    by (rule nonce_fresh_within_minute [OF assms(1,4,8,9,5,7,6)])
qed (use assms(2,3) in \<open>simp_all add: signature_valid_def\<close>)

lemma handshake_client:
  fixes now1 now2 start timeout :: nat and server :: socket_addr
  assumes "is_valid_spki_der (spki_der signer)" and "length raw = NONCE_LEN" and "encode_challenge t0 401 (Some raw) = Some r0"
    and "new_transaction_id fill 0 = Some t0" and "new_transaction_id fill 1 = Some t1"
    and "is_usable_reflexive_addr src'" and "now1 < start + timeout" and "now2 < start + timeout"
  shows "query_reflexive_address_signed debug fill (\<lambda>_. None) start server timeout signer
      [(now1, Datagram r0 server), (now2, Datagram (encode_binding_success t1 src') server)]
    = ([SendTo (request_with t0 (identity_attr (spki_der signer))) server, Wait (start + timeout - now1),
        SendTo (challenged_request t1 raw signer) server, Wait (start + timeout - now2)],
       Done (Inr (sock_new (fold_ip (sock_ip src')) (sock_port src'))))"
proof -
  note acts = act_challenge [OF assms(2,3)] act_success [OF assms(6)]
  show ?thesis
    using assms(5,7,8)
    by (simp add: query_signed_result [where send_error = "\<lambda>_. None", OF assms(1,4)] signed_loop_Cons acts handle_challenge_def
        wire_consts emit_def challenged_request_def)
qed

text \<open>C3: the two sides fit, end to end. In either mode, for any secret, source and usable address, a
  client whose signer signs for its own key gets its address from this server in two round trips: the
  server challenges the identity request, the client signs that nonce under a new transaction id, the
  server (up to 60 seconds later, whatever form the source address then has) answers, and the client
  returns the folded source. The datagrams fed to the server are exactly those the client sends.\<close>
theorem handshake_end_to_end:
  fixes mode :: credential_mode and start timeout now1 now2 :: nat and server :: socket_addr and debug :: bool
  assumes "hmac_sha256_output hmac" and "is_valid_spki_der (spki_der signer)"
    and "\<forall>m. is_valid_signature_der_len (sign signer m) \<and> ecdsa (drop 26 (spki_der signer)) m (sign signer m)"
    and "new_transaction_id fill 0 = Some t0" and "new_transaction_id fill 1 = Some t1"
    and "s0 \<le> s1" and "unat s1 - unat s0 \<le> 60" and "unat s1 div 60 < 2 ^ 32"
    and "fold_ip (sock_ip src) = fold_ip (sock_ip src')" and "sock_port src = sock_port src'"
    and "is_usable_reflexive_addr src" and "now1 < start + timeout" and "now2 < start + timeout"
  shows "\<exists>d0 r0 d1 r1.
    server_reply hmac ecdsa issuer mode src s0 d0 = Some (Some r0)
    \<and> server_reply hmac ecdsa issuer mode src' s1 d1 = Some (Some r1)
    \<and> (let run = query_reflexive_address_signed debug fill (\<lambda>_. None) start server timeout signer
          [(now1, Datagram r0 server), (now2, Datagram r1 server)]
       in datagrams (fst run) = [(d0, server), (d1, server)]
          \<and> snd run = Done (Inr (sock_new (fold_ip (sock_ip src)) (sock_port src))))"
proof -
  obtain raw r0 where raw: "issue hmac issuer src s0 = Some raw" "length raw = NONCE_LEN"
      "encode_challenge t0 401 (Some raw) = Some r0"
    and r0: "server_reply hmac ecdsa issuer mode src s0 (request_with t0 (identity_attr (spki_der signer))) = Some (Some r0)"
    by (rule handshake_first_reply [OF assms(1,2)])
  note r1 = handshake_second_reply [where ecdsa = ecdsa and mode = mode and ?t1.0 = t1, OF assms(1-3) raw(1) assms(6-10)]
  have "is_usable_reflexive_addr src'"
    using assms(9-11) usable_folded [of src] usable_folded [of src'] by simp
  note run = handshake_client [OF assms(2) raw(2,3) assms(4,5) this assms(12,13)]
  show ?thesis
    using r0 r1 assms(9,10) by (intro exI conjI) (assumption | simp add: run)+
qed

text \<open>A verifier matching the example signer, whose signature is a prefix of the padded message.\<close>

definition example_ecdsa :: verifier where
  "example_ecdsa point msg sig \<longleftrightarrow> point = drop 26 example_spki \<and> sig = take 70 (msg @ replicate 70 3)"

lemma example_ecdsa_signer [simp]: "example_ecdsa (drop 26 (spki_der example_signer)) m (sign example_signer m)"
  by (simp add: example_ecdsa_def example_signer_def)

theorem handshake_end_to_end_witness:
  "\<exists>d0 r0 d1 r1.
    server_reply example_hmac example_ecdsa (from_secret (replicate 32 5)) Required example_mapped 1000 d0 = Some (Some r0)
    \<and> server_reply example_hmac example_ecdsa (from_secret (replicate 32 5)) Required example_mapped 1050 d1 = Some (Some r1)
    \<and> (let run = query_reflexive_address_signed True example_fill (\<lambda>_. None) 100 example_server 50 example_signer
          [(110, Datagram r0 example_server), (120, Datagram r1 example_server)]
       in datagrams (fst run) = [(d0, example_server), (d1, example_server)]
          \<and> snd run = Done (Inr (sock_new (fold_ip (sock_ip example_mapped)) (sock_port example_mapped))))"
  by (rule handshake_end_to_end [OF example_hmac_output example_signer_valid(1) _ example_fill_id example_fill_id])
    (simp_all add: word_le_nat_alt)

text \<open>The plain client against the same server. In advisory mode it gets the folded source of its
  datagram; in required mode it gets the error \<open>UnexpectedType 0x0111\<close>, never an address, a panic
  or a hang.\<close>
theorem plain_client_and_server:
  fixes start timeout now :: nat and server :: socket_addr
  assumes "hmac_sha256_output hmac" and "new_transaction_id fill 0 = Some t" and "is_usable_reflexive_addr src"
    and "now < start + timeout"
  shows "\<exists>adv req.
    server_reply hmac ecdsa issuer Advisory src s (encode_binding_request t) = Some (Some adv)
    \<and> snd (query_reflexive_address fill None start server timeout [(now, Datagram adv server)])
        = Done (Inr (sock_new (fold_ip (sock_ip src)) (sock_port src)))
    \<and> server_reply hmac ecdsa issuer Required src s (encode_binding_request t) = Some (Some req)
    \<and> snd (query_reflexive_address fill None start server timeout [(now, Datagram req server)])
        = Done (Inl (UnexpectedType BINDING_ERROR))"
proof -
  obtain req where req: "encode_challenge t 401 None = Some req" using encode_challenge_some by blast
  have sized: "nonce_sized None" by (simp add: nonce_sized_def)
  have "parse_binding_response req (Some t) = Some (Inl (UnexpectedType BINDING_ERROR))"
    using req by (auto simp: encode_challenge_eq parse_response_header BINDING_ERROR_def BINDING_SUCCESS_def)
  then have "decision t (start + timeout) (now, Datagram req server) = Inl (UnexpectedType BINDING_ERROR)"
    using assms(4) received_challenge(1) [OF sized req] by (simp add: decision_def)
  moreover have "decision t (start + timeout) (now, Datagram (encode_binding_success t src) server)
      = Inr (sock_new (fold_ip (sock_ip src)) (sock_port src))"
    using assms(3,4) usable_folded [of src] by (simp add: decision_ok_iff parse_encode_success)
  ultimately show ?thesis
    using server_reply_bare [OF assms(1) classify_bare, of ecdsa issuer src s t] req
    by (simp add: query_result [OF assms(2)] query_loop_decision del: query_loop.simps)
qed

theorem plain_client_and_server_witness:
  "\<exists>adv. snd (query_reflexive_address example_fill None 100 example_server 50 [(110, Datagram adv example_server)])
     = Done (Inr (sock_new (fold_ip (sock_ip example_mapped)) (sock_port example_mapped)))"
  using plain_client_and_server [where server = example_server and ecdsa = example_ecdsa and s = 1000
      and issuer = "from_secret (replicate 32 5)" and start = 100 and timeout = 50 and now = 110,
      OF example_hmac_output example_fill_id example_mapped_usable]
  by auto

end
