(* ===== verification/Observe.thy ===== *)
theory Observe
  imports Scope "HOL-Library.AList" "HOL-Library.Multiset"
begin

text \<open>
  The peer-observation responder, \<open>src/observe.rs\<close>: the pure decision \<open>observe\<close> and the
  limiter with its three token budgets. A \<open>HashMap\<close> is an association list with distinct keys;
  the order its \<open>iter()\<close> visits the entries in is unspecified in Rust, so it is an argument, any
  permutation of the entries.
\<close>

section \<open>The decision\<close>

datatype direction = Inbound | Outbound

datatype path = Direct | Relayed

record session_meta =
  meta_direction :: direction
  meta_path :: path
  meta_remote :: socket_addr

datatype refusal = OutboundRefused | RelayedRefused | Unusable | RateLimited

definition session_meta_new :: "direction \<Rightarrow> path \<Rightarrow> socket_addr \<Rightarrow> session_meta" where
  "session_meta_new d p remote = \<lparr>meta_direction = d, meta_path = p, meta_remote = remote\<rparr>"

definition observe :: "session_meta \<Rightarrow> refusal + socket_addr" where
  "observe m =
     (if meta_direction m \<noteq> Inbound then Inl OutboundRefused
      else if meta_path m \<noteq> Direct then Inl RelayedRefused
      else if scope_of (meta_remote m) = NeverDialable then Inl Unusable
      else Inr (sock_new (fold_ip (sock_ip (meta_remote m))) (sock_port (meta_remote m))))"

section \<open>Token buckets\<close>

definition OBSERVE_PER_SESSION_PER_MINUTE :: u32 where "OBSERVE_PER_SESSION_PER_MINUTE = 6"

definition OBSERVE_GLOBAL_PER_SECOND :: u32 where "OBSERVE_GLOBAL_PER_SECOND = 64"

definition MAX_TRACKED_SOURCES :: nat where "MAX_TRACKED_SOURCES = 4096"

definition SESSION_SOURCE_WINDOW_MS :: u64 where "SESSION_SOURCE_WINDOW_MS = 60000"

definition GLOBAL_WINDOW_MS :: u64 where "GLOBAL_WINDOW_MS = 1000"

record token_bucket =
  tokens :: u32
  window :: u64
  last_seen_ms :: u64

definition bucket_new :: "u32 \<Rightarrow> u64 \<Rightarrow> u64 \<Rightarrow> token_bucket" where
  "bucket_new capacity now_ms window_ms =
     \<lparr>tokens = capacity, window = now_ms div window_ms, last_seen_ms = now_ms\<rparr>"

definition peek :: "token_bucket \<Rightarrow> u64 \<Rightarrow> u64 \<Rightarrow> bool" where
  "peek b now_ms window_ms \<longleftrightarrow> now_ms div window_ms \<noteq> window b \<or> 0 < tokens b"

definition saturating_pred :: "u32 \<Rightarrow> u32" where
  "saturating_pred n = (if n = 0 then 0 else n - 1)"

definition spend :: "token_bucket \<Rightarrow> u32 \<Rightarrow> u64 \<Rightarrow> u64 \<Rightarrow> token_bucket" where
  "spend b capacity now_ms window_ms =
     (let win = now_ms div window_ms;
          b = (if win \<noteq> window b then b\<lparr>window := win, tokens := capacity\<rparr> else b);
          b = b\<lparr>tokens := saturating_pred (tokens b)\<rparr>
      in b\<lparr>last_seen_ms := now_ms\<rparr>)"

section \<open>The bounded map\<close>

type_synonym 'k bucket_map = "('k \<times> token_bucket) list"

text \<open>An iteration order of a hash map: some permutation of its entries.\<close>

typedef 'a hash_order = "{f :: 'a list \<Rightarrow> 'a list. \<forall>xs. mset (f xs) = mset xs}"
  morphisms visit Hash_Order
  by (rule exI [of _ id]) simp

lemma mset_visit [simp]: "mset (visit ord xs) = mset xs"
  using visit [of ord] by simp

lemma set_visit [simp]: "set (visit ord xs) = set xs"
  by (metis mset_visit set_mset_mset)

lemma visit_Nil_iff [simp]: "visit ord xs = [] \<longleftrightarrow> xs = []"
  by (metis mset_visit mset_zero_iff)

definition insertion_order :: "'a hash_order" where
  "insertion_order = Hash_Order id"

lemma visit_insertion_order [simp]: "visit insertion_order xs = xs"
  by (simp add: insertion_order_def Hash_Order_inverse)

text \<open>\<open>min_by_key(last_seen_ms)\<close>: the first entry, in visiting order, with the least key.\<close>

fun min_by_last_seen :: "'k bucket_map \<Rightarrow> ('k \<times> token_bucket) option" where
  "min_by_last_seen [] = None"
| "min_by_last_seen ((k, b) # es) =
     (case min_by_last_seen es of
        None \<Rightarrow> Some (k, b)
      | Some (k', b') \<Rightarrow> if last_seen_ms b' < last_seen_ms b then Some (k', b') else Some (k, b))"

text \<open>
  \<open>bucket_for\<close> gives the map with the bucket of \<open>key\<close> present; the caller reads the returned
  reference with \<open>bucket_at\<close> and writes through it with \<open>AList.update\<close>.
\<close>

definition bucket_for ::
  "('k \<times> token_bucket) hash_order \<Rightarrow> 'k bucket_map \<Rightarrow> 'k \<Rightarrow> u32 \<Rightarrow> u64 \<Rightarrow> u64 \<Rightarrow> 'k bucket_map" where
  "bucket_for ord m key capacity now_ms window_ms =
     (let m = (if map_of m key = None \<and> MAX_TRACKED_SOURCES \<le> length m
               then (case min_by_last_seen (visit ord m) of
                       Some (victim, _) \<Rightarrow> AList.delete victim m
                     | None \<Rightarrow> m)
               else m)
      in (case map_of m key of
            Some _ \<Rightarrow> m
          | None \<Rightarrow> AList.update key (bucket_new capacity now_ms window_ms) m))"

definition bucket_at :: "'k bucket_map \<Rightarrow> 'k \<Rightarrow> token_bucket" where
  "bucket_at m key = the (map_of m key)"

section \<open>The limiter\<close>

record observe_limiter =
  session_and_source_capacity :: u32
  global_capacity :: u32
  per_session :: "string bucket_map"
  per_source :: "ip_addr bucket_map"
  global :: token_bucket

definition limiter_new :: "u32 \<Rightarrow> u32 \<Rightarrow> observe_limiter" where
  "limiter_new per_session_and_source_per_minute global_per_second =
     \<lparr>session_and_source_capacity = per_session_and_source_per_minute,
      global_capacity = global_per_second, per_session = [], per_source = [],
      global = bucket_new global_per_second 0 GLOBAL_WINDOW_MS\<rparr>"

type_synonym orders = "(string \<times> token_bucket) hash_order \<times> (ip_addr \<times> token_bucket) hash_order"

definition allow ::
  "orders \<Rightarrow> observe_limiter \<Rightarrow> string \<Rightarrow> ip_addr \<Rightarrow> u64 \<Rightarrow> observe_limiter \<times> bool" where
  "allow ords lim session source now_ms =
     (let (ord_s, ord_a) = ords;
          source = fold_ip source;
          session_key = session;
          capacity = session_and_source_capacity lim;
          sessions = bucket_for ord_s (per_session lim) session_key capacity now_ms SESSION_SOURCE_WINDOW_MS;
          session_bucket = bucket_at sessions session_key
      in if \<not> peek session_bucket now_ms SESSION_SOURCE_WINDOW_MS
         then (lim\<lparr>per_session := AList.update session_key (session_bucket\<lparr>last_seen_ms := now_ms\<rparr>) sessions\<rparr>,
               False)
         else
           (let lim = lim\<lparr>per_session := sessions\<rparr>;
                sources = bucket_for ord_a (per_source lim) source capacity now_ms SESSION_SOURCE_WINDOW_MS;
                source_bucket = bucket_at sources source
            in if \<not> peek source_bucket now_ms SESSION_SOURCE_WINDOW_MS
               then (lim\<lparr>per_source := AList.update source (source_bucket\<lparr>last_seen_ms := now_ms\<rparr>) sources\<rparr>,
                     False)
               else
                 (let lim = lim\<lparr>per_source := sources\<rparr>
                  in if \<not> peek (global lim) now_ms GLOBAL_WINDOW_MS
                     then (lim, False)
                     else
                       (let sessions = bucket_for ord_s (per_session lim) session_key capacity now_ms
                              SESSION_SOURCE_WINDOW_MS;
                            sessions = AList.update session_key
                              (spend (bucket_at sessions session_key) capacity now_ms SESSION_SOURCE_WINDOW_MS)
                              sessions;
                            sources = bucket_for ord_a (per_source lim) source capacity now_ms
                              SESSION_SOURCE_WINDOW_MS;
                            sources = AList.update source
                              (spend (bucket_at sources source) capacity now_ms SESSION_SOURCE_WINDOW_MS)
                              sources
                        in (lim\<lparr>per_session := sessions, per_source := sources,
                                global := spend (global lim) (global_capacity lim) now_ms GLOBAL_WINDOW_MS\<rparr>,
                            True)))))"

section \<open>The map as a bounded store\<close>

text \<open>
  What the limiter needs of its maps: the requested bucket is there afterwards, the old one if there
  was one and a fresh one otherwise; other buckets are never changed, only dropped, and not even
  dropped while the key is present or there is room; the invariant (distinct keys, bounded size)
  is kept.
\<close>

locale bucket_store =
  fixes ensure :: "'m \<Rightarrow> 'k \<Rightarrow> 'm" and put :: "'k \<Rightarrow> token_bucket \<Rightarrow> 'm \<Rightarrow> 'm"
    and get :: "'m \<Rightarrow> 'k \<Rightarrow> token_bucket option" and room :: "'m \<Rightarrow> bool"
    and inv :: "'m \<Rightarrow> bool" and fresh :: token_bucket
  assumes ensure_inv: "inv m \<Longrightarrow> inv (ensure m k)"
    and ensure_get: "inv m \<Longrightarrow> get (ensure m k) k = Some (case get m k of Some b \<Rightarrow> b | None \<Rightarrow> fresh)"
    and ensure_other: "inv m \<Longrightarrow> k' \<noteq> k \<Longrightarrow> get (ensure m k) k' = Some b \<Longrightarrow> get m k' = Some b"
    and ensure_keeps: "inv m \<Longrightarrow> get m k \<noteq> None \<or> room m \<Longrightarrow> k' \<noteq> k \<Longrightarrow> get (ensure m k) k' = get m k'"
    and put_inv: "inv m \<Longrightarrow> get m k \<noteq> None \<Longrightarrow> inv (put k b m)"
    and put_get: "get (put k b m) k' = (if k' = k then Some b else get m k')"
begin

lemma ensure_put_inv: "inv m \<Longrightarrow> inv (put k b (ensure m k))"
  by (simp add: put_inv ensure_inv ensure_get)

lemma ensure_put_get:
  "inv m \<Longrightarrow> get m k \<noteq> None \<or> room m \<Longrightarrow>
   get (put k b (ensure m k)) k' = (if k' = k then Some b else get m k')"
  by (simp add: put_get ensure_keeps)

text \<open>A property of buckets that the fresh and the written one have is kept by every bucket.\<close>

lemma ensure_all:
  assumes "inv m" and "P fresh" and "\<And>k b. get m k = Some b \<Longrightarrow> P b" and "get (ensure m k) k' = Some b"
  shows "P b"
  using assms ensure_get [of m k] ensure_other [of m k' k b]
  by (cases "k' = k") (auto split: option.splits)

lemma ensure_put_all:
  assumes "inv m" and "P fresh" and "\<And>k b. get m k = Some b \<Longrightarrow> P b" and "P b'"
    and "get (put k b' (ensure m k)) k' = Some b"
  shows "P b"
  using assms ensure_all [of m P k k' b] by (auto simp: put_get split: if_splits)

end

definition store_inv :: "'k bucket_map \<Rightarrow> bool" where
  "store_inv m \<longleftrightarrow> distinct (map fst m) \<and> length m \<le> MAX_TRACKED_SOURCES"

definition store_room :: "'k bucket_map \<Rightarrow> bool" where
  "store_room m \<longleftrightarrow> length m < MAX_TRACKED_SOURCES"

lemma min_by_last_seen_None [simp]: "min_by_last_seen es = None \<longleftrightarrow> es = []"
  by (cases es) (auto split: option.splits)

lemma min_by_last_seen_least:
  "min_by_last_seen es = Some (k, b) \<Longrightarrow>
   (k, b) \<in> set es \<and> (\<forall>(k', b') \<in> set es. last_seen_ms b \<le> last_seen_ms b')"
proof (induction es arbitrary: k b)
  case (Cons e es)
  then show ?case
    by (cases e) (force split: option.splits if_splits prod.splits)
qed simp

lemma length_delete:
  assumes "distinct (map fst m)" and "(k, b) \<in> set m"
  shows "Suc (length (AList.delete k m)) = length m"
proof -
  have k: "k \<in> set (map fst m)" using assms(2) by force
  have "length (AList.delete k m) = length (remove1 k (map fst m))"
    using assms(1) by (metis AList.delete_keys distinct_remove1_removeAll length_map)
  with k show ?thesis
    by (metis One_nat_def Suc_pred length_map length_pos_if_in_set length_remove1)
qed

lemma length_update: "map_of m k = None \<Longrightarrow> length (AList.update k b m) = Suc (length m)"
  by (metis AList.update_keys domIff dom_map_of_conv_image_fst length_append_singleton length_map list.set_map)

lemma length_update_present: "map_of m k = Some b' \<Longrightarrow> length (AList.update k b m) = length m"
  by (metis AList.update_keys domI dom_map_of_conv_image_fst length_map list.set_map)

lemma bucket_for_present: "map_of m k = Some b \<Longrightarrow> bucket_for ord m k cap now win = m"
  by (simp add: bucket_for_def)

lemma bucket_for_room:
  "map_of m k = None \<Longrightarrow> store_room m \<Longrightarrow>
   bucket_for ord m k cap now win = AList.update k (bucket_new cap now win) m"
  by (simp add: bucket_for_def store_room_def)

lemma bucket_for_full:
  assumes "map_of m k = None" and "\<not> store_room m"
  obtains victim vb where "(victim, vb) \<in> set m" "\<forall>(k', b') \<in> set m. last_seen_ms vb \<le> last_seen_ms b'"
    "bucket_for ord m k cap now win = AList.update k (bucket_new cap now win) (AList.delete victim m)"
proof -
  have "visit ord m \<noteq> []" using assms(2) by (auto simp: store_room_def MAX_TRACKED_SOURCES_def)
  then obtain victim vb where v: "min_by_last_seen (visit ord m) = Some (victim, vb)"
    by (metis min_by_last_seen_None not_Some_eq surj_pair)
  then show ?thesis
    using that [of victim vb] assms min_by_last_seen_least [OF v]
    by (auto simp: bucket_for_def store_room_def AList.delete_conv' Let_def split: if_splits)
qed

lemma store_inv_update:
  "store_inv m \<Longrightarrow> map_of m k \<noteq> None \<or> store_room m \<Longrightarrow> store_inv (AList.update k b m)"
  by (cases "map_of m k")
    (auto simp: store_inv_def store_room_def AList.distinct_update length_update length_update_present)

lemma store_delete:
  assumes "store_inv m" and "(victim, vb) \<in> set m"
  shows "store_inv (AList.delete victim m)" and "store_room (AList.delete victim m)"
proof -
  have "Suc (length (AList.delete victim m)) = length m"
    using assms by (auto simp: store_inv_def intro: length_delete)
  then show "store_inv (AList.delete victim m)" and "store_room (AList.delete victim m)"
    using assms(1) by (auto simp: store_inv_def store_room_def AList.distinct_delete)
qed

lemma map_of_delete_update:
  "map_of (AList.update k b (AList.delete v m)) k' = (if k' = k then Some b else if k' = v then None else map_of m k')"
  by (simp add: AList.update_conv' AList.delete_conv')

interpretation store: bucket_store "\<lambda>m k. bucket_for ord m k cap now win" AList.update map_of store_room
  store_inv "bucket_new cap now win" for ord :: "('k \<times> token_bucket) hash_order" and cap now win
proof
  fix m :: "'k bucket_map" and k k' :: 'k and b
  assume inv: "store_inv m"
  consider (present) b where "map_of m k = Some b" "bucket_for ord m k cap now win = m"
    | (room) "map_of m k = None" "store_room m"
        "bucket_for ord m k cap now win = AList.update k (bucket_new cap now win) m"
    | (full) v vb where "map_of m k = None" "\<not> store_room m" "(v, vb) \<in> set m"
        "bucket_for ord m k cap now win = AList.update k (bucket_new cap now win) (AList.delete v m)"
    by (metis bucket_for_full bucket_for_present bucket_for_room not_Some_eq)
  note cases = this
  show "store_inv (bucket_for ord m k cap now win)"
    using cases inv by cases (auto intro: store_inv_update store_delete)
  show "map_of (bucket_for ord m k cap now win) k
    = Some (case map_of m k of Some b \<Rightarrow> b | None \<Rightarrow> bucket_new cap now win)"
    using cases by cases (simp_all add: AList.update_conv')
  show "k' \<noteq> k \<Longrightarrow> map_of (bucket_for ord m k cap now win) k' = Some b \<Longrightarrow> map_of m k' = Some b"
    using cases by cases (auto simp: AList.update_conv' AList.delete_conv' split: if_splits)
  show "map_of m k \<noteq> None \<or> store_room m \<Longrightarrow> k' \<noteq> k \<Longrightarrow>
    map_of (bucket_for ord m k cap now win) k' = map_of m k'"
    using cases by cases (auto simp: AList.update_conv')
  show "map_of m k \<noteq> None \<Longrightarrow> store_inv (AList.update k b m)"
    using inv by (blast intro: store_inv_update)
qed (simp add: AList.update_conv')

section \<open>The four ways a request ends\<close>

definition session_map :: "orders \<Rightarrow> observe_limiter \<Rightarrow> string \<Rightarrow> u64 \<Rightarrow> string bucket_map" where
  "session_map ords lim session now =
     bucket_for (fst ords) (per_session lim) session (session_and_source_capacity lim) now SESSION_SOURCE_WINDOW_MS"

definition source_map :: "orders \<Rightarrow> observe_limiter \<Rightarrow> ip_addr \<Rightarrow> u64 \<Rightarrow> ip_addr bucket_map" where
  "source_map ords lim source now =
     bucket_for (snd ords) (per_source lim) (fold_ip source) (session_and_source_capacity lim) now
       SESSION_SOURCE_WINDOW_MS"

definition session_permits :: "orders \<Rightarrow> observe_limiter \<Rightarrow> string \<Rightarrow> u64 \<Rightarrow> bool" where
  "session_permits ords lim session now \<longleftrightarrow>
     peek (bucket_at (session_map ords lim session now) session) now SESSION_SOURCE_WINDOW_MS"

definition source_permits :: "orders \<Rightarrow> observe_limiter \<Rightarrow> ip_addr \<Rightarrow> u64 \<Rightarrow> bool" where
  "source_permits ords lim source now \<longleftrightarrow>
     peek (bucket_at (source_map ords lim source now) (fold_ip source)) now SESSION_SOURCE_WINDOW_MS"

definition tokens_within :: "u32 \<Rightarrow> 'k bucket_map \<Rightarrow> bool" where
  "tokens_within cap m \<longleftrightarrow> (\<forall>k b. map_of m k = Some b \<longrightarrow> tokens b \<le> cap)"

definition limiter_inv :: "u32 \<Rightarrow> u32 \<Rightarrow> observe_limiter \<Rightarrow> bool" where
  "limiter_inv cap gcap lim \<longleftrightarrow>
     session_and_source_capacity lim = cap \<and> global_capacity lim = gcap
     \<and> store_inv (per_session lim) \<and> store_inv (per_source lim)
     \<and> tokens_within cap (per_session lim) \<and> tokens_within cap (per_source lim)
     \<and> tokens (global lim) \<le> gcap"

lemma bucket_for_idem:
  assumes "store_inv m"
  shows "bucket_for ord (bucket_for ord m k cap now win) k cap now win = bucket_for ord m k cap now win"
  using store.ensure_get [OF assms] by (rule bucket_for_present)

lemma allow_eq:
  assumes "store_inv (per_session lim)" and "store_inv (per_source lim)"
  shows "allow ords lim session source now =
    (let capacity = session_and_source_capacity lim;
         sessions = session_map ords lim session now; sb = bucket_at sessions session;
         sources = source_map ords lim source now; ab = bucket_at sources (fold_ip source)
     in if \<not> session_permits ords lim session now
        then (lim\<lparr>per_session := AList.update session (sb\<lparr>last_seen_ms := now\<rparr>) sessions\<rparr>, False)
        else if \<not> source_permits ords lim source now
        then (lim\<lparr>per_session := sessions,
                  per_source := AList.update (fold_ip source) (ab\<lparr>last_seen_ms := now\<rparr>) sources\<rparr>, False)
        else if \<not> peek (global lim) now GLOBAL_WINDOW_MS
        then (lim\<lparr>per_session := sessions, per_source := sources\<rparr>, False)
        else (lim\<lparr>per_session := AList.update session (spend sb capacity now SESSION_SOURCE_WINDOW_MS) sessions,
                  per_source := AList.update (fold_ip source) (spend ab capacity now SESSION_SOURCE_WINDOW_MS) sources,
                  global := spend (global lim) (global_capacity lim) now GLOBAL_WINDOW_MS\<rparr>, True))"
  using assms
  by (simp add: allow_def session_map_def source_map_def session_permits_def source_permits_def Let_def
      case_prod_beta bucket_for_idem)

lemma unat_saturating_pred: "unat (saturating_pred n) = unat n - 1"
proof (cases "n = 0")
  case False
  then have "1 \<le> n" by (simp add: word_le_nat_alt unat_gt_0 Suc_le_eq)
  then show ?thesis by (simp add: saturating_pred_def unat_sub)
qed (simp add: saturating_pred_def)

lemma saturating_pred_le: "saturating_pred n \<le> n"
  by (simp add: word_le_nat_alt unat_saturating_pred)

lemma spend_tokens_le: "tokens b \<le> cap \<Longrightarrow> tokens (spend b cap now win) \<le> cap"
  using saturating_pred_le [of cap] saturating_pred_le [of "tokens b"]
  by (auto simp: spend_def Let_def intro: order_trans)

lemma bucket_at_tokens_le:
  assumes "store_inv m" and "tokens_within cap m"
  shows "tokens (bucket_at (bucket_for ord m k cap now win) k) \<le> cap"
  using assms store.ensure_get [of m ord k cap now win]
  by (simp add: tokens_within_def bucket_at_def bucket_new_def split: option.split)

lemma tokens_within_ensure:
  assumes "store_inv m" and "tokens_within cap m"
  shows "tokens_within cap (bucket_for ord m k cap now win)"
  unfolding tokens_within_def
proof (intro allI impI)
  fix k' b
  assume "map_of (bucket_for ord m k cap now win) k' = Some b"
  then show "tokens b \<le> cap"
    using assms(2) by (rule_tac store.ensure_all [where P = "\<lambda>b. tokens b \<le> cap", OF assms(1)])
      (auto simp: bucket_new_def tokens_within_def)
qed

lemma tokens_within_put:
  "tokens_within cap m \<Longrightarrow> tokens b \<le> cap \<Longrightarrow> tokens_within cap (AList.update k b m)"
  by (simp add: tokens_within_def AList.update_conv')

lemma limiter_new_inv: "limiter_inv cap gcap (limiter_new cap gcap)"
  by (simp add: limiter_inv_def limiter_new_def store_inv_def tokens_within_def bucket_new_def)

lemma allow_inv:
  assumes "limiter_inv cap gcap lim"
  shows "limiter_inv cap gcap (fst (allow ords lim session source now))"
proof -
  let ?S = "session_map ords lim session now" and ?A = "source_map ords lim source now"
  have maps: "store_inv (per_session lim)" "store_inv (per_source lim)"
      "tokens_within cap (per_session lim)" "tokens_within cap (per_source lim)"
    and cap: "session_and_source_capacity lim = cap" "global_capacity lim = gcap" "tokens (global lim) \<le> gcap"
    using assms by (simp_all add: limiter_inv_def)
  have S: "store_inv ?S" "tokens_within cap ?S" "tokens (bucket_at ?S session) \<le> cap"
      "store_inv (AList.update session b ?S)" for b
    using maps cap
    by (simp_all add: session_map_def store.ensure_inv tokens_within_ensure bucket_at_tokens_le store.ensure_put_inv)
  have A: "store_inv ?A" "tokens_within cap ?A" "tokens (bucket_at ?A (fold_ip source)) \<le> cap"
      "store_inv (AList.update (fold_ip source) b ?A)" for b
    using maps cap
    by (simp_all add: source_map_def store.ensure_inv tokens_within_ensure bucket_at_tokens_le store.ensure_put_inv)
  show ?thesis
    by (simp add: allow_eq [OF maps(1,2)] limiter_inv_def Let_def maps cap S A tokens_within_put spend_tokens_le)
qed

text \<open>The states the code can be in: built by \<open>new\<close>, changed by \<open>allow\<close>.\<close>

inductive limiter_reach :: "u32 \<Rightarrow> u32 \<Rightarrow> observe_limiter \<Rightarrow> bool" for cap gcap where
  reach_new: "limiter_reach cap gcap (limiter_new cap gcap)"
| reach_allow: "limiter_reach cap gcap lim \<Longrightarrow>
    limiter_reach cap gcap (fst (allow ords lim session source now))"

lemma limiter_reach_inv: "limiter_reach cap gcap lim \<Longrightarrow> limiter_inv cap gcap lim"
  by (induction rule: limiter_reach.induct) (simp_all add: limiter_new_inv allow_inv)

section \<open>Budgets\<close>

text \<open>
  A run of calls, and the contract of one budget dimension: within one window, a call never raises
  what is available, and a granted call that counts against the dimension takes at least one.
\<close>

fun run_calls :: "('s \<Rightarrow> 'c \<Rightarrow> 's \<times> bool) \<Rightarrow> 's \<Rightarrow> 'c list \<Rightarrow> 's \<times> bool list" where
  "run_calls step s [] = (s, [])"
| "run_calls step s (c # cs) =
     (let (s', g) = step s c; (s'', gs) = run_calls step s' cs in (s'', g # gs))"

fun run_ok :: "('s \<Rightarrow> 'c \<Rightarrow> bool) \<Rightarrow> ('s \<Rightarrow> 'c \<Rightarrow> 's \<times> bool) \<Rightarrow> 's \<Rightarrow> 'c list \<Rightarrow> bool" where
  "run_ok ok step s [] \<longleftrightarrow> True"
| "run_ok ok step s (c # cs) \<longleftrightarrow> ok s c \<and> run_ok ok step (fst (step s c)) cs"

definition grants :: "('c \<Rightarrow> bool) \<Rightarrow> 'c list \<Rightarrow> bool list \<Rightarrow> nat" where
  "grants counts cs gs = length (filter (\<lambda>(c, g). g \<and> counts c) (zip cs gs))"

locale window_budget =
  fixes step :: "'s \<Rightarrow> 'c \<Rightarrow> 's \<times> bool" and ok :: "'s \<Rightarrow> 'c \<Rightarrow> bool" and counts :: "'c \<Rightarrow> bool"
    and inv :: "'s \<Rightarrow> bool" and avail :: "'s \<Rightarrow> nat"
  assumes step_inv: "inv s \<Longrightarrow> ok s c \<Longrightarrow> inv (fst (step s c))"
    and step_spends: "inv s \<Longrightarrow> ok s c \<Longrightarrow>
      avail (fst (step s c)) + (if snd (step s c) \<and> counts c then 1 else 0) \<le> avail s"
begin

lemma run_grants_le:
  "inv s \<Longrightarrow> run_ok ok step s cs \<Longrightarrow> grants counts cs (snd (run_calls step s cs)) \<le> avail s"
proof (induction cs arbitrary: s)
  case (Cons c cs)
  let ?s = "fst (step s c)"
  from Cons.prems have "grants counts cs (snd (run_calls step ?s cs)) \<le> avail ?s"
    by (intro Cons.IH) (simp_all add: step_inv)
  moreover have "avail ?s + (if snd (step s c) \<and> counts c then 1 else 0) \<le> avail s"
    using Cons.prems by (intro step_spends) simp_all
  ultimately show ?case
    by (auto simp: grants_def case_prod_beta Let_def split: if_splits)
qed (simp add: grants_def)

end

type_synonym call = "orders \<times> string \<times> ip_addr \<times> u64"

fun allow_call :: "observe_limiter \<Rightarrow> call \<Rightarrow> observe_limiter \<times> bool" where
  "allow_call lim (ords, session, source, now) = allow ords lim session source now"

text \<open>What a bucket can still grant in window \<open>w\<close>; an absent bucket will start full.\<close>

definition bucket_avail :: "u32 \<Rightarrow> u64 \<Rightarrow> token_bucket \<Rightarrow> nat" where
  "bucket_avail cap w b = (if window b = w then unat (tokens b) else unat cap)"

definition map_avail :: "u32 \<Rightarrow> u64 \<Rightarrow> 'k \<Rightarrow> 'k bucket_map \<Rightarrow> nat" where
  "map_avail cap w k m = (case map_of m k of Some b \<Rightarrow> bucket_avail cap w b | None \<Rightarrow> unat cap)"

lemma spend_avail_eq:
  assumes "0 < cap" and "peek b now win"
  shows "Suc (bucket_avail cap (now div win) (spend b cap now win)) = bucket_avail cap (now div win) b"
proof -
  have "0 < unat cap" using assms(1) by (simp add: unat_gt_0)
  then show ?thesis
    using assms by (auto simp: bucket_avail_def spend_def peek_def Let_def unat_saturating_pred unat_gt_0)
qed

lemma spend_avail:
  "0 < cap \<Longrightarrow> peek b now win \<Longrightarrow> now div win = w \<Longrightarrow>
   Suc (bucket_avail cap w (spend b cap now win)) \<le> bucket_avail cap w b"
  using spend_avail_eq [of cap b now win] by simp

lemma bucket_avail_last_seen [simp]: "bucket_avail cap w (b\<lparr>last_seen_ms := t\<rparr>) = bucket_avail cap w b"
  by (simp add: bucket_avail_def)

lemma bucket_avail_new [simp]: "bucket_avail cap w (bucket_new cap now win) = unat cap"
  by (simp add: bucket_avail_def bucket_new_def)

lemma map_avail_put:
  "map_avail cap w k (AList.update k' b m) = (if k = k' then bucket_avail cap w b else map_avail cap w k m)"
  by (simp add: map_avail_def AList.update_conv')

lemma bucket_at_avail:
  "store_inv m \<Longrightarrow> bucket_avail cap w (bucket_at (bucket_for ord m k cap now win) k) = map_avail cap w k m"
  by (simp add: bucket_at_def store.ensure_get map_avail_def split: option.split)

lemma map_avail_own: "store_inv m \<Longrightarrow> map_avail cap w k (bucket_for ord m k cap now win) = map_avail cap w k m"
  by (simp add: map_avail_def store.ensure_get split: option.split)

lemma map_avail_ensure:
  assumes "store_inv m" and "map_of m k' \<noteq> None \<or> store_room m"
  shows "map_avail cap w k (bucket_for ord m k' cap now win) = map_avail cap w k m"
proof (cases "k = k'")
  case True
  then show ?thesis using map_avail_own [OF assms(1)] by simp
next
  case False
  then show ?thesis by (simp add: map_avail_def store.ensure_keeps [OF assms])
qed

text \<open>One dimension's map under one call, in window \<open>w\<close>: touched, or charged.\<close>

lemma map_avail_touch:
  assumes "store_inv m" and "map_of m k' \<noteq> None \<or> store_room m"
  shows "map_avail cap w k (AList.update k' (bucket_at (bucket_for ord m k' cap now win) k'\<lparr>last_seen_ms := t\<rparr>)
           (bucket_for ord m k' cap now win)) = map_avail cap w k m"
  using assms by (simp add: map_avail_put bucket_at_avail map_avail_ensure)

lemma map_avail_charge_eq:
  assumes "store_inv m" and "map_of m k' \<noteq> None \<or> store_room m" and "0 < cap"
    and "peek (bucket_at (bucket_for ord m k' cap now win) k') now win" and "now div win = w"
  shows "map_avail cap w k (AList.update k' (spend (bucket_at (bucket_for ord m k' cap now win) k') cap now win)
           (bucket_for ord m k' cap now win)) + (if k' = k then 1 else 0) = map_avail cap w k m"
proof (cases "k' = k")
  case True
  then show ?thesis
    using spend_avail_eq [OF assms(3,4)] assms(5) bucket_at_avail [OF assms(1), of cap w ord k' now win]
    by (simp add: map_avail_put)
next
  case False
  then show ?thesis by (simp add: map_avail_put map_avail_ensure [OF assms(1,2)])
qed

lemmas map_avail_charge = eq_refl [OF map_avail_charge_eq]

definition in_window :: "u64 \<Rightarrow> u64 \<Rightarrow> observe_limiter \<Rightarrow> call \<Rightarrow> bool" where
  "in_window win w lim c \<longleftrightarrow> (case c of (_, _, _, now) \<Rightarrow> now div win = w)"

text \<open>The call does not have to evict a tracked session (or source) to make room.\<close>

definition session_fits :: "observe_limiter \<Rightarrow> call \<Rightarrow> bool" where
  "session_fits lim c \<longleftrightarrow>
     (case c of (_, session, _, _) \<Rightarrow> map_of (per_session lim) session \<noteq> None \<or> store_room (per_session lim))"

definition source_fits :: "observe_limiter \<Rightarrow> call \<Rightarrow> bool" where
  "source_fits lim c \<longleftrightarrow>
     (case c of (_, _, source, _) \<Rightarrow>
        map_of (per_source lim) (fold_ip source) \<noteq> None \<or> store_room (per_source lim))"

interpretation global_budget: window_budget allow_call "in_window GLOBAL_WINDOW_MS w" "\<lambda>_. True"
  "\<lambda>lim. 0 < gcap \<and> limiter_inv cap gcap lim" "\<lambda>lim. bucket_avail gcap w (global lim)" for cap gcap w
proof
  fix lim c
  assume inv: "0 < gcap \<and> limiter_inv cap gcap lim" and w: "in_window GLOBAL_WINDOW_MS w lim c"
  show "0 < gcap \<and> limiter_inv cap gcap (fst (allow_call lim c))"
    using inv allow_inv by (cases c) auto
  show "bucket_avail gcap w (global (fst (allow_call lim c))) + (if snd (allow_call lim c) \<and> True then 1 else 0)
    \<le> bucket_avail gcap w (global lim)"
    using inv w spend_avail [of gcap "global lim" _ GLOBAL_WINDOW_MS w]
    by (cases c) (auto simp: allow_eq limiter_inv_def Let_def in_window_def)
qed

interpretation session_budget: window_budget allow_call
  "\<lambda>lim c. in_window SESSION_SOURCE_WINDOW_MS w lim c \<and> session_fits lim c" "\<lambda>(_, session, _, _). session = k"
  "\<lambda>lim. 0 < cap \<and> limiter_inv cap gcap lim" "\<lambda>lim. map_avail cap w k (per_session lim)" for cap gcap w k
proof
  fix lim and c :: call
  assume inv: "0 < cap \<and> limiter_inv cap gcap lim"
    and ok: "in_window SESSION_SOURCE_WINDOW_MS w lim c \<and> session_fits lim c"
  obtain ords session source now where c: "c = (ords, session, source, now)" by (metis prod_cases4)
  show "0 < cap \<and> limiter_inv cap gcap (fst (allow_call lim c))"
    using inv allow_inv by (simp add: c)
  have maps: "store_inv (per_session lim)" "store_inv (per_source lim)" "session_and_source_capacity lim = cap"
    using inv by (simp_all add: limiter_inv_def)
  have fits: "map_of (per_session lim) session \<noteq> None \<or> store_room (per_session lim)"
    and w: "now div SESSION_SOURCE_WINDOW_MS = w"
    using ok by (auto simp: c session_fits_def in_window_def)
  show "map_avail cap w k (per_session (fst (allow_call lim c)))
      + (if snd (allow_call lim c) \<and> (case c of (_, session, _, _) \<Rightarrow> session = k) then 1 else 0)
    \<le> map_avail cap w k (per_session lim)"
    using map_avail_charge [OF maps(1) fits, of cap "fst ords" now SESSION_SOURCE_WINDOW_MS w k] inv w
    by (auto simp: c allow_eq [OF maps(1,2)] Let_def maps session_map_def session_permits_def
        map_avail_touch [OF maps(1) fits] map_avail_ensure [OF maps(1) fits])
qed

interpretation source_budget: window_budget allow_call
  "\<lambda>lim c. in_window SESSION_SOURCE_WINDOW_MS w lim c \<and> source_fits lim c" "\<lambda>(_, _, source, _). fold_ip source = k"
  "\<lambda>lim. 0 < cap \<and> limiter_inv cap gcap lim" "\<lambda>lim. map_avail cap w k (per_source lim)" for cap gcap w k
proof
  fix lim and c :: call
  assume inv: "0 < cap \<and> limiter_inv cap gcap lim"
    and ok: "in_window SESSION_SOURCE_WINDOW_MS w lim c \<and> source_fits lim c"
  obtain ords session source now where c: "c = (ords, session, source, now)" by (metis prod_cases4)
  show "0 < cap \<and> limiter_inv cap gcap (fst (allow_call lim c))"
    using inv allow_inv by (simp add: c)
  have maps: "store_inv (per_session lim)" "store_inv (per_source lim)" "session_and_source_capacity lim = cap"
    using inv by (simp_all add: limiter_inv_def)
  have fits: "map_of (per_source lim) (fold_ip source) \<noteq> None \<or> store_room (per_source lim)"
    and w: "now div SESSION_SOURCE_WINDOW_MS = w"
    using ok by (auto simp: c source_fits_def in_window_def)
  show "map_avail cap w k (per_source (fst (allow_call lim c)))
      + (if snd (allow_call lim c) \<and> (case c of (_, _, source, _) \<Rightarrow> fold_ip source = k) then 1 else 0)
    \<le> map_avail cap w k (per_source lim)"
    using map_avail_charge [OF maps(2) fits, of cap "snd ords" now SESSION_SOURCE_WINDOW_MS w k] inv w
    by (auto simp: c allow_eq [OF maps(1,2)] Let_def maps source_map_def source_permits_def
        map_avail_touch [OF maps(2) fits] map_avail_ensure [OF maps(2) fits])
qed

section \<open>What a call does to one dimension\<close>

definition drops :: "'k bucket_map \<Rightarrow> 'k bucket_map \<Rightarrow> 'k \<Rightarrow> bool" where
  "drops m m' k \<longleftrightarrow> map_of m k \<noteq> None \<and> map_of m' k = None"

text \<open>What a call can do to the map of one dimension.\<close>

definition map_outcome :: "('k \<times> token_bucket) hash_order \<Rightarrow> 'k bucket_map \<Rightarrow> 'k \<Rightarrow> u32 \<Rightarrow> u64 \<Rightarrow> 'k bucket_map \<Rightarrow> bool \<Rightarrow> bool" where
  "map_outcome ord m k cap now m' granted \<longleftrightarrow>
     (let e = bucket_for ord m k cap now SESSION_SOURCE_WINDOW_MS; b = bucket_at e k
      in if granted then peek b now SESSION_SOURCE_WINDOW_MS
             \<and> m' = AList.update k (spend b cap now SESSION_SOURCE_WINDOW_MS) e
         else m' = m \<or> m' = e \<or> m' = AList.update k (b\<lparr>last_seen_ms := now\<rparr>) e)"

lemma outcome_keeps_own: "map_outcome ord m k cap now m' g \<Longrightarrow> store_inv m \<Longrightarrow> \<not> drops m m' k"
  using store.ensure_get [of m ord k cap now SESSION_SOURCE_WINDOW_MS]
  by (auto simp: map_outcome_def drops_def Let_def AList.update_conv' split: if_splits option.splits)

lemma outcome_drops_nothing:
  assumes "map_outcome ord m k' cap now m' g" and "store_inv m" and "map_of m k' \<noteq> None \<or> store_room m"
  shows "\<not> drops m m' k"
proof -
  let ?e = "bucket_for ord m k' cap now SESSION_SOURCE_WINDOW_MS"
  have e: "map_of ?e k' \<noteq> None" using store.ensure_get [OF assms(2)] by (metis option.distinct(1))
  have "map_of m' k = None \<longrightarrow> map_of m k = None \<or> map_of ?e k = None \<and> k \<noteq> k'"
    using assms(1) e by (auto simp: map_outcome_def Let_def AList.update_conv' split: if_splits)
  moreover have "map_of ?e k = map_of m k" if "k \<noteq> k'" using store.ensure_keeps [OF assms(2,3) that] .
  ultimately show ?thesis by (auto simp: drops_def)
qed

text \<open>A call evicts at most one key.\<close>

lemma ensure_drops_one:
  assumes "store_inv m" and "drops m (bucket_for ord m key cap now win) k" and "drops m (bucket_for ord m key cap now win) l"
  shows "k = l"
proof -
  have "map_of m key = None \<and> \<not> store_room m"
    using assms bucket_for_present [of m key] bucket_for_room [of m key]
    by (cases "map_of m key"; cases "store_room m") (auto simp: drops_def AList.update_conv' split: if_splits)
  then obtain v vb where "bucket_for ord m key cap now win = AList.update key (bucket_new cap now win) (AList.delete v m)"
    using bucket_for_full by metis
  with assms show ?thesis by (auto simp: drops_def AList.update_conv' AList.delete_conv' split: if_splits)
qed

lemma outcome_drops_one:
  assumes "map_outcome ord m k' cap now m' g" and "store_inv m" and "drops m m' k" and "drops m m' l"
  shows "k = l"
proof -
  let ?e = "bucket_for ord m k' cap now SESSION_SOURCE_WINDOW_MS"
  have "drops m ?e i" if "drops m m' i" for i
    using that assms(1) by (auto simp: drops_def map_outcome_def Let_def AList.update_conv' split: if_splits)
  with assms(3,4) show ?thesis using ensure_drops_one [OF assms(2)] by blast
qed

lemma allow_outcomes:
  assumes "limiter_inv cap gcap lim"
  shows "map_outcome (fst ords) (per_session lim) session cap now
      (per_session (fst (allow ords lim session source now))) (snd (allow ords lim session source now))"
    and "map_outcome (snd ords) (per_source lim) (fold_ip source) cap now
      (per_source (fst (allow ords lim session source now))) (snd (allow ords lim session source now))"
proof -
  have maps: "store_inv (per_session lim)" "store_inv (per_source lim)" "session_and_source_capacity lim = cap"
    using assms by (simp_all add: limiter_inv_def)
  note unfold = allow_eq [OF maps(1,2)] Let_def maps(3) map_outcome_def session_map_def session_permits_def
    source_map_def source_permits_def
  show "map_outcome (fst ords) (per_session lim) session cap now
      (per_session (fst (allow ords lim session source now))) (snd (allow ords lim session source now))"
    by (simp add: unfold)
  show "map_outcome (snd ords) (per_source lim) (fold_ip source) cap now
      (per_source (fst (allow ords lim session source now))) (snd (allow ords lim session source now))"
    by (simp add: unfold)
qed

text \<open>A token is taken, or none. A capacity of zero has none to take.\<close>

definition charged :: "u32 \<Rightarrow> bool \<Rightarrow> nat \<Rightarrow> nat \<Rightarrow> bool" where
  "charged cap hit before after \<longleftrightarrow>
     (if hit then after = before - 1 \<and> (0 < cap \<longrightarrow> 0 < before) else after = before)"

lemma spend_charged:
  assumes "peek b now win" and "tokens b \<le> cap"
  shows "charged cap True (bucket_avail cap (now div win) b) (bucket_avail cap (now div win) (spend b cap now win))"
proof (cases "0 < cap")
  case True
  from spend_avail_eq [OF this assms(1)] show ?thesis by (simp add: charged_def)
next
  case False
  then have "cap = 0" by (simp add: word_gt_0)
  with assms(2) show ?thesis
    by (auto simp: charged_def bucket_avail_def spend_def saturating_pred_def Let_def)
qed

lemma outcome_charged:
  assumes "map_outcome ord m k' cap now m' g" and "store_inv m" and "tokens_within cap m" and "\<not> drops m m' k"
  defines "w \<equiv> now div SESSION_SOURCE_WINDOW_MS"
  shows "charged cap (g \<and> k' = k) (map_avail cap w k m) (map_avail cap w k m')"
proof (cases "k = k'")
  case True
  let ?e = "bucket_for ord m k' cap now SESSION_SOURCE_WINDOW_MS"
  have avail: "bucket_avail cap w (bucket_at ?e k') = map_avail cap w k m" by (simp add: True bucket_at_avail [OF assms(2)])
  have "tokens (bucket_at ?e k') \<le> cap" by (rule bucket_at_tokens_le [OF assms(2,3)])
  from spend_charged [OF _ this, of now SESSION_SOURCE_WINDOW_MS] assms(1) show ?thesis
    using map_avail_put [of cap w k k'] avail map_avail_own [OF assms(2), of cap w k ord now]
    by (auto simp: True w_def map_outcome_def Let_def charged_def split: if_splits)
next
  case False
  let ?e = "bucket_for ord m k' cap now SESSION_SOURCE_WINDOW_MS"
  have "map_of m' k = map_of m k \<or> map_of m' k = map_of ?e k"
    using assms(1) False by (auto simp: map_outcome_def Let_def AList.update_conv' split: if_splits)
  moreover have "map_of ?e k = map_of m k" if "map_of ?e k \<noteq> None"
    using that store.ensure_other [OF assms(2) False] by fastforce
  ultimately have "map_of m' k = map_of m k"
    using assms(4) by (cases "map_of ?e k") (auto simp: drops_def)
  with False show ?thesis by (simp add: charged_def map_avail_def)
qed

section \<open>Properties\<close>

text \<open>When a peer is answered. \<open>observe\<close> answers exactly on an inbound, direct session whose
  remote is usable, and then with the remote folded and its port unchanged, which is itself a usable,
  fully folded address; it never reports \<open>RateLimited\<close>.\<close>
theorem observe_iff:
  "(observe m = Inr a \<longleftrightarrow>
      meta_direction m = Inbound \<and> meta_path m = Direct \<and> is_usable_reflexive_addr (meta_remote m)
      \<and> a = sock_new (fold_ip (sock_ip (meta_remote m))) (sock_port (meta_remote m))
      \<and> is_usable_reflexive_addr a \<and> fold_ip (sock_ip a) = sock_ip a)
   \<and> observe m \<noteq> Inl RateLimited"
proof -
  define b where "b = sock_new (fold_ip (sock_ip (meta_remote m))) (sock_port (meta_remote m))"
  have usable: "is_usable_reflexive_addr b \<longleftrightarrow> scope_of (meta_remote m) \<noteq> NeverDialable"
    unfolding b_def usable_folded by (simp add: is_usable_reflexive_addr_def)
  have folded: "fold_ip (sock_ip b) = sock_ip b" by (simp add: b_def)
  have "observe m =
     (if meta_direction m \<noteq> Inbound then Inl OutboundRefused
      else if meta_path m \<noteq> Direct then Inl RelayedRefused
      else if scope_of (meta_remote m) = NeverDialable then Inl Unusable else Inr b)"
    by (simp add: observe_def b_def)
  then show ?thesis
    unfolding b_def [symmetric] using usable folded by (auto simp: is_usable_reflexive_addr_def split: if_splits)
qed

text \<open>C23: the limiter's memory is bounded. In every state the code can reach, for any capacities and
  any hash order, neither map has more than \<open>MAX_TRACKED_SOURCES\<close> entries or a key twice, and no
  bucket holds more tokens than its capacity.\<close>
theorem limiter_maps_bounded:
  assumes "limiter_reach cap gcap lim"
  shows "length (per_session lim) \<le> MAX_TRACKED_SOURCES \<and> length (per_source lim) \<le> MAX_TRACKED_SOURCES
    \<and> distinct (map fst (per_session lim)) \<and> distinct (map fst (per_source lim))
    \<and> tokens_within cap (per_session lim) \<and> tokens_within cap (per_source lim) \<and> tokens (global lim) \<le> gcap"
  using limiter_reach_inv [OF assms] by (simp add: limiter_inv_def store_inv_def)

abbreviation std_orders :: orders where
  "std_orders \<equiv> (insertion_order, insertion_order)"

theorem limiter_maps_bounded_witness:
  "length (per_session (fst (allow std_orders (limiter_new 6 64) ''peer'' (IpV4 (Ipv4 8 8 8 8)) 5))) \<le> MAX_TRACKED_SOURCES"
  using limiter_maps_bounded [OF limiter_reach.reach_allow [OF limiter_reach.reach_new]] by blast

text \<open>The global budget holds. From every reachable state with a non-zero global capacity, any
  sequence of calls inside one one-second window, from any sessions and sources, is granted at most
  \<open>global_capacity\<close> times.\<close>
theorem global_rate_bound:
  assumes "limiter_reach cap gcap lim" and "0 < gcap"
    and "run_ok (in_window GLOBAL_WINDOW_MS w) allow_call lim calls"
  shows "grants (\<lambda>_. True) calls (snd (run_calls allow_call lim calls)) \<le> unat gcap"
proof -
  have inv: "0 < gcap \<and> limiter_inv cap gcap lim" using assms limiter_reach_inv by blast
  have "grants (\<lambda>_. True) calls (snd (run_calls allow_call lim calls)) \<le> bucket_avail gcap w (global lim)"
    by (rule global_budget.run_grants_le [OF inv assms(3)])
  also have "\<dots> \<le> unat gcap"
    using inv by (simp add: bucket_avail_def limiter_inv_def word_le_nat_alt)
  finally show ?thesis .
qed

abbreviation example_source :: ip_addr where
  "example_source \<equiv> IpV4 (Ipv4 8 8 8 8)"

abbreviation example_call :: call where
  "example_call \<equiv> (std_orders, ''a'', example_source, 5)"

theorem global_rate_bound_witness:
  "grants (\<lambda>_. True) [example_call]
     (snd (run_calls allow_call (limiter_new 6 64) [example_call])) \<le> unat (64 :: u32)"
  by (rule global_rate_bound [where w = 0, OF limiter_reach.reach_new])
    (simp_all add: in_window_def GLOBAL_WINDOW_MS_def)

lemma map_avail_le: "tokens_within cap m \<Longrightarrow> map_avail cap w k m \<le> unat cap"
  by (auto simp: map_avail_def bucket_avail_def tokens_within_def word_le_nat_alt split: option.split)

text \<open>The session budget holds. From every reachable state with a non-zero capacity, over any
  sequence of calls inside one minute window in which no call has to evict a tracked session, one
  session is granted at most the capacity, whatever the other sessions do.\<close>
theorem session_rate_bound:
  assumes "limiter_reach cap gcap lim" and "0 < cap"
    and "run_ok (\<lambda>lim c. in_window SESSION_SOURCE_WINDOW_MS w lim c \<and> session_fits lim c) allow_call lim calls"
  shows "grants (\<lambda>(_, session, _, _). session = k) calls (snd (run_calls allow_call lim calls)) \<le> unat cap"
proof -
  have inv: "0 < cap \<and> limiter_inv cap gcap lim" using assms limiter_reach_inv by blast
  show ?thesis
    using session_budget.run_grants_le [OF inv assms(3)] map_avail_le [of cap "per_session lim" w k] inv
    by (auto simp: limiter_inv_def intro: order_trans)
qed

theorem session_rate_bound_witness:
  "grants (\<lambda>(_, session, _, _). session = ''a'') [example_call]
     (snd (run_calls allow_call (limiter_new 6 64) [example_call])) \<le> unat (6 :: u32)"
  by (rule session_rate_bound [where w = 0, OF limiter_reach.reach_new])
    (simp_all add: in_window_def session_fits_def store_room_def limiter_new_def MAX_TRACKED_SOURCES_def
      SESSION_SOURCE_WINDOW_MS_def)

text \<open>The source budget holds likewise: one folded source IP is granted at most the capacity per
  minute window, however many sessions it opens, as long as no tracked source is evicted.\<close>
theorem source_rate_bound:
  assumes "limiter_reach cap gcap lim" and "0 < cap"
    and "run_ok (\<lambda>lim c. in_window SESSION_SOURCE_WINDOW_MS w lim c \<and> source_fits lim c) allow_call lim calls"
  shows "grants (\<lambda>(_, _, source, _). fold_ip source = k) calls (snd (run_calls allow_call lim calls)) \<le> unat cap"
proof -
  have inv: "0 < cap \<and> limiter_inv cap gcap lim" using assms limiter_reach_inv by blast
  show ?thesis
    using source_budget.run_grants_le [OF inv assms(3)] map_avail_le [of cap "per_source lim" w k] inv
    by (auto simp: limiter_inv_def intro: order_trans)
qed

theorem source_rate_bound_witness:
  "grants (\<lambda>(_, _, source, _). fold_ip source = example_source) [example_call]
     (snd (run_calls allow_call (limiter_new 6 64) [example_call])) \<le> unat (6 :: u32)"
  by (rule source_rate_bound [where w = 0, OF limiter_reach.reach_new])
    (simp_all add: in_window_def source_fits_def store_room_def limiter_new_def MAX_TRACKED_SOURCES_def
      SESSION_SOURCE_WINDOW_MS_def)

text \<open>C9: all or nothing, in every state the limiter can be in, for every capacity and with full maps too.
  A refused call leaves the global bucket as it was and takes nothing from any session or source; a granted
  call takes one token from its own session, its own source and the global bucket, and nothing from any
  other. The token is there to be taken unless the capacity is zero: a bucket of capacity zero grants with
  nothing to take. The only other change is that a call for an untracked key on a full map may drop
  another key, whose bucket is then as if new.\<close>
theorem allow_all_or_nothing:
  fixes ords :: orders and session :: string and source :: ip_addr and now :: u64
  assumes "limiter_reach cap gcap lim"
  defines "r \<equiv> allow ords lim session source now"
    and "w \<equiv> now div SESSION_SOURCE_WINDOW_MS" and "g \<equiv> now div GLOBAL_WINDOW_MS"
  shows "charged gcap (snd r) (bucket_avail gcap g (global lim)) (bucket_avail gcap g (global (fst r)))
    \<and> (\<not> snd r \<longrightarrow> global (fst r) = global lim)
    \<and> (if drops (per_session lim) (per_session (fst r)) k
       then k \<noteq> session \<and> \<not> session_fits lim (ords, session, source, now)
       else charged cap (snd r \<and> session = k) (map_avail cap w k (per_session lim)) (map_avail cap w k (per_session (fst r))))
    \<and> (if drops (per_source lim) (per_source (fst r)) a
       then a \<noteq> fold_ip source \<and> \<not> source_fits lim (ords, session, source, now)
       else charged cap (snd r \<and> fold_ip source = a) (map_avail cap w a (per_source lim)) (map_avail cap w a (per_source (fst r))))"
proof -
  have l: "limiter_inv cap gcap lim" by (rule limiter_reach_inv [OF assms(1)])
  then have inv: "store_inv (per_session lim)" "store_inv (per_source lim)"
      "tokens_within cap (per_session lim)" "tokens_within cap (per_source lim)"
      "global_capacity lim = gcap" "tokens (global lim) \<le> gcap"
    by (simp_all add: limiter_inv_def)
  note out = allow_outcomes(1) [OF l, where ords = ords and session = session and now = now and source = source, folded r_def]
    allow_outcomes(2) [OF l, where ords = ords and session = session and now = now and source = source, folded r_def]
  have "global (fst r) = (if snd r then spend (global lim) gcap now GLOBAL_WINDOW_MS else global lim)"
    and "snd r \<longrightarrow> peek (global lim) now GLOBAL_WINDOW_MS"
    by (simp_all add: r_def allow_eq [OF inv(1,2)] Let_def inv)
  then have "charged gcap (snd r) (bucket_avail gcap g (global lim)) (bucket_avail gcap g (global (fst r)))"
    and "\<not> snd r \<longrightarrow> global (fst r) = global lim"
    using spend_charged [OF _ inv(6), of now GLOBAL_WINDOW_MS] by (auto simp: g_def charged_def)
  moreover have "if drops (per_session lim) (per_session (fst r)) k
       then k \<noteq> session \<and> \<not> session_fits lim (ords, session, source, now)
       else charged cap (snd r \<and> session = k) (map_avail cap w k (per_session lim)) (map_avail cap w k (per_session (fst r)))"
    unfolding if_bool_eq_conj session_fits_def prod.case
    using outcome_charged [OF out(1) inv(1,3), of k, folded w_def] outcome_keeps_own [OF out(1) inv(1)]
      outcome_drops_nothing [OF out(1) inv(1), of k] by blast
  moreover have "if drops (per_source lim) (per_source (fst r)) a
       then a \<noteq> fold_ip source \<and> \<not> source_fits lim (ords, session, source, now)
       else charged cap (snd r \<and> fold_ip source = a) (map_avail cap w a (per_source lim)) (map_avail cap w a (per_source (fst r)))"
    unfolding if_bool_eq_conj source_fits_def prod.case
    using outcome_charged [OF out(2) inv(2,4), of a, folded w_def] outcome_keeps_own [OF out(2) inv(2)]
      outcome_drops_nothing [OF out(2) inv(2), of a] by blast
  ultimately show ?thesis by blast
qed

theorem allow_all_or_nothing_witness:
  "charged 64 True (bucket_avail 64 5 (global (limiter_new 6 64)))
     (bucket_avail 64 5 (global (fst (allow std_orders (limiter_new 6 64) ''a'' example_source 5000))))
   \<and> charged 6 False (map_avail 6 0 ''b'' (per_session (limiter_new 6 64)))
       (map_avail 6 0 ''b'' (per_session (fst (allow std_orders (limiter_new 6 64) ''a'' example_source 5000))))"
proof -
  let ?r = "allow std_orders (limiter_new 6 64) ''a'' example_source 5000"
  have "snd ?r" and "\<not> drops (per_session (limiter_new 6 64)) (per_session (fst ?r)) ''b''"
    by (simp_all add: drops_def allow_def limiter_new_def bucket_for_def bucket_at_def peek_def spend_def bucket_new_def
        MAX_TRACKED_SOURCES_def SESSION_SOURCE_WINDOW_MS_def GLOBAL_WINDOW_MS_def Let_def)
  with allow_all_or_nothing [OF limiter_reach.reach_new, where cap = 6 and gcap = 64 and ords = std_orders
      and session = "''a''" and source = example_source and now = 5000 and k = "''b''"]
  show ?thesis by (simp add: SESSION_SOURCE_WINDOW_MS_def GLOBAL_WINDOW_MS_def)
qed

text \<open>Eviction takes the least recently seen. Asking a full map for an untracked key removes
  exactly one entry, whose \<open>last_seen_ms\<close> is minimal among all entries, keeps every other entry as
  it was, adds a fresh full bucket for the key, and leaves the map at its bound.\<close>
theorem bucket_for_evicts_least_recent:
  assumes "store_inv m" and "length m = MAX_TRACKED_SOURCES" and "map_of m key = None"
  shows "\<exists>victim vb. map_of m victim = Some vb \<and> (\<forall>k b. map_of m k = Some b \<longrightarrow> last_seen_ms vb \<le> last_seen_ms b)
    \<and> map_of (bucket_for ord m key cap now win)
        = (map_of m)(victim := None, key \<mapsto> bucket_new cap now win)
    \<and> length (bucket_for ord m key cap now win) = MAX_TRACKED_SOURCES"
proof -
  have "\<not> store_room m" using assms(2) by (simp add: store_room_def)
  then obtain victim vb where v: "(victim, vb) \<in> set m" "\<forall>(k', b') \<in> set m. last_seen_ms vb \<le> last_seen_ms b'"
    and eq: "bucket_for ord m key cap now win = AList.update key (bucket_new cap now win) (AList.delete victim m)"
    using bucket_for_full [OF assms(3)] by metis
  have d: "distinct (map fst m)" using assms(1) by (simp add: store_inv_def)
  have "Suc (length (AList.delete victim m)) = MAX_TRACKED_SOURCES"
    using length_delete [OF d v(1)] assms(2) by simp
  moreover have "map_of (AList.delete victim m) key = None"
    using assms(3) by (simp add: AList.delete_conv')
  ultimately have "length (bucket_for ord m key cap now win) = MAX_TRACKED_SOURCES"
    by (simp add: eq length_update)
  then show ?thesis
    using v d assms(3) by (intro exI [of _ victim] exI [of _ vb])
      (auto simp: eq AList.update_conv' AList.delete_conv' dest: map_of_SomeD)
qed

definition full_map :: "nat bucket_map" where
  "full_map = map (\<lambda>i. (i, bucket_new 6 7 60000)) [0..<MAX_TRACKED_SOURCES]"

lemma full_map_facts:
  "store_inv full_map" "length full_map = MAX_TRACKED_SOURCES" "map_of full_map MAX_TRACKED_SOURCES = None"
  by (auto simp: full_map_def store_inv_def comp_def map_of_eq_None_iff)

theorem bucket_for_evicts_least_recent_witness:
  "length (bucket_for insertion_order full_map MAX_TRACKED_SOURCES 6 8 60000) = MAX_TRACKED_SOURCES"
  using bucket_for_evicts_least_recent [OF full_map_facts, of insertion_order 6 8 60000] by blast

lemma limiter_new_permits:
  assumes "0 < cap"
  shows "session_permits ords (limiter_new cap gcap) session now" "source_permits ords (limiter_new cap gcap) source now"
  using assms
  by (simp_all add: session_permits_def source_permits_def session_map_def source_map_def limiter_new_def
      bucket_for_def bucket_at_def peek_def bucket_new_def MAX_TRACKED_SOURCES_def)

text \<open>C40: a zero capacity does not deny every request. The doc comment of \<open>ObserveLimiter::new\<close> says a
  zero capacity in either argument denies every request in that dimension; but \<open>peek\<close> permits
  whenever the window has changed and \<open>spend\<close> saturates at zero, so a limiter with global capacity
  zero grants the first request it sees after the first second.\<close>
theorem zero_global_capacity_grants:
  assumes "0 < cap" and "1000 \<le> now"
  shows "snd (allow ords (limiter_new cap 0) session source now)"
proof -
  have "now div GLOBAL_WINDOW_MS \<noteq> 0"
    using assms(2) by (simp add: GLOBAL_WINDOW_MS_def word_unat_eq_iff word_le_nat_alt unat_div)
  then have "peek (global (limiter_new cap 0)) now GLOBAL_WINDOW_MS"
    by (simp add: limiter_new_def peek_def bucket_new_def)
  moreover have "store_inv (per_session (limiter_new cap 0))" "store_inv (per_source (limiter_new cap 0))"
    using limiter_new_inv by (simp_all add: limiter_inv_def)
  ultimately show ?thesis
    using assms(1) by (simp add: allow_eq Let_def limiter_new_permits)
qed

theorem zero_global_capacity_grants_witness:
  "snd (allow std_orders (limiter_new 6 0) ''peer'' example_source 1000)"
  by (rule zero_global_capacity_grants) simp_all

text \<open>The windows are fixed, not rolling. The doc comments promise a number of answers per rolling
  minute; a limiter of capacity one grants the same session and source twice one millisecond apart,
  on either side of a window boundary.\<close>
theorem fixed_window_boundary_burst:
  "snd (run_calls allow_call (limiter_new 1 64)
      [(std_orders, ''a'', example_source, 59999), (std_orders, ''a'', example_source, 60000)]) = [True, True]"
  by (simp add: allow_def limiter_new_def bucket_for_def bucket_at_def peek_def spend_def bucket_new_def
      saturating_pred_def MAX_TRACKED_SOURCES_def SESSION_SOURCE_WINDOW_MS_def GLOBAL_WINDOW_MS_def Let_def)

end
