(* ===== verification/LimiterSpec.thy ===== *)
theory LimiterSpec
  imports Observe
begin

text \<open>
  What the limiter of \<open>src/observe.rs\<close> promises, and that it keeps it. The specification has no
  buckets, windows or maps: it remembers every grant and counts. As long as no more sessions and
  sources are seen than the maps hold and time does not run backwards past a grant, the limiter
  answers every call as the count does, whatever order its hash maps iterate in.
\<close>

section \<open>The specification\<close>

text \<open>A grant: session, folded source and time.\<close>

type_synonym grant = "string \<times> ip_addr \<times> u64"

definition window_count :: "(grant \<Rightarrow> bool) \<Rightarrow> u64 \<Rightarrow> u64 \<Rightarrow> grant list \<Rightarrow> nat" where
  "window_count sel win w log = length (filter (\<lambda>g. sel g \<and> snd (snd g) div win = w) log)"

definition spec_allow :: "u32 \<Rightarrow> u32 \<Rightarrow> grant list \<Rightarrow> string \<Rightarrow> ip_addr \<Rightarrow> u64 \<Rightarrow> bool" where
  "spec_allow cap gcap log session source now \<longleftrightarrow>
     window_count (\<lambda>(s, _, _). s = session) SESSION_SOURCE_WINDOW_MS (now div SESSION_SOURCE_WINDOW_MS) log < unat cap
     \<and> window_count (\<lambda>(_, a, _). a = fold_ip source) SESSION_SOURCE_WINDOW_MS (now div SESSION_SOURCE_WINDOW_MS) log < unat cap
     \<and> window_count (\<lambda>_. True) GLOBAL_WINDOW_MS (now div GLOBAL_WINDOW_MS) log < unat gcap"

fun spec_step :: "u32 \<Rightarrow> u32 \<Rightarrow> grant list \<Rightarrow> call \<Rightarrow> grant list \<times> bool" where
  "spec_step cap gcap log (ords, session, source, now) =
     (if spec_allow cap gcap log session source now then ((session, fold_ip source, now) # log, True)
      else (log, False))"

section \<open>Simulation of runs\<close>

text \<open>When each call of a run, from related states, gives the same answer and related states again,
  the runs answer alike. \<open>ok\<close> is what a call may rely on, judged on the abstract state.\<close>

locale call_simulation =
  fixes step :: "'s \<Rightarrow> 'c \<Rightarrow> 's \<times> bool" and spec :: "'a \<Rightarrow> 'c \<Rightarrow> 'a \<times> bool"
    and ok :: "'a \<Rightarrow> 'c \<Rightarrow> bool" and rel :: "'a \<Rightarrow> 's \<Rightarrow> bool"
  assumes same_answer: "rel a s \<Longrightarrow> ok a c \<Longrightarrow> snd (step s c) = snd (spec a c)"
    and still_related: "rel a s \<Longrightarrow> ok a c \<Longrightarrow> rel (fst (spec a c)) (fst (step s c))"
begin

lemma run_same:
  "rel a s \<Longrightarrow> run_ok ok spec a cs \<Longrightarrow>
   snd (run_calls step s cs) = snd (run_calls spec a cs)
   \<and> rel (fst (run_calls spec a cs)) (fst (run_calls step s cs))"
proof (induction cs arbitrary: a s)
  case (Cons c cs)
  then have "rel (fst (spec a c)) (fst (step s c))" and "snd (step s c) = snd (spec a c)"
    by (simp_all add: still_related same_answer)
  with Cons.IH [OF this(1)] Cons.prems(2) show ?case by (simp add: case_prod_beta Let_def)
qed simp

end

section \<open>One dimension\<close>

text \<open>What is available in a window the log has not gone past, and what was granted in it, make up
  the capacity.\<close>

definition tracks :: "u32 \<Rightarrow> u64 \<Rightarrow> (grant \<Rightarrow> bool) \<Rightarrow> grant list \<Rightarrow> (u64 \<Rightarrow> nat) \<Rightarrow> bool" where
  "tracks cap win sel log avail \<longleftrightarrow>
     (\<forall>w. (\<forall>g \<in> set log. snd (snd g) div win \<le> w) \<longrightarrow> avail w + window_count sel win w log = unat cap)"

definition timely :: "grant list \<Rightarrow> u64 \<Rightarrow> bool" where
  "timely log now \<longleftrightarrow> (\<forall>g \<in> set log. snd (snd g) \<le> now)"

lemma div_mono_word: "a div c \<le> b div c" if "a \<le> b" for a b c :: "'a::len word"
  using that by (simp add: word_le_nat_alt unat_div div_le_mono)

lemma second_in_minute: "now div GLOBAL_WINDOW_MS div 60 = now div SESSION_SOURCE_WINDOW_MS"
  by (simp add: GLOBAL_WINDOW_MS_def SESSION_SOURCE_WINDOW_MS_def word_unat_eq_iff unat_div flip: div_mult2_eq)

lemma timely_window: "timely log now \<Longrightarrow> \<forall>g \<in> set log. snd (snd g) div win \<le> now div win"
  by (simp add: timely_def div_mono_word)

lemma tracks_now:
  "tracks cap win sel log avail \<Longrightarrow> timely log now \<Longrightarrow>
   0 < avail (now div win) \<longleftrightarrow> window_count sel win (now div win) log < unat cap"
  using timely_window [of log now win] by (fastforce simp: tracks_def)

lemma window_count_later:
  "timely log now \<Longrightarrow> now div win < w \<Longrightarrow> window_count sel win w log = 0"
  using timely_window [of log now win] by (fastforce simp: window_count_def filter_empty_conv)

lemma tracks_grant:
  assumes "tracks cap win sel log avail" and "timely log now" and "snd (snd g) = now"
    and "\<And>w. avail' w = (if \<not> sel g then avail w else if w = now div win then avail w - 1 else unat cap)"
    and "sel g \<Longrightarrow> 0 < avail (now div win)"
  shows "tracks cap win sel (g # log) avail'"
  unfolding tracks_def
proof (intro allI impI)
  fix w
  assume "\<forall>h \<in> set (g # log). snd (snd h) div win \<le> w"
  then have log: "\<forall>h \<in> set log. snd (snd h) div win \<le> w" and now: "now div win \<le> w"
    using assms(3) by simp_all
  have old: "avail w + window_count sel win w log = unat cap" using assms(1) log by (simp add: tracks_def)
  show "avail' w + window_count sel win w (g # log) = unat cap"
  proof (cases "w = now div win")
    case True
    then show ?thesis using old assms(3-5) by (auto simp: window_count_def)
  next
    case False
    then have "now div win < w" using now by simp
    then have "window_count sel win w log = 0" by (rule window_count_later [OF assms(2)])
    then show ?thesis using old assms(3,4) False by (simp add: window_count_def)
  qed
qed

text \<open>The bucket of a dimension, charged or not.\<close>

lemma peek_avail: "0 < cap \<Longrightarrow> peek b now win \<longleftrightarrow> 0 < bucket_avail cap (now div win) b"
  by (auto simp: peek_def bucket_avail_def unat_gt_0 word_gt_0)

lemma spend_avail_window:
  assumes "0 < cap" and "peek b now win"
  shows "bucket_avail cap w (spend b cap now win) =
    (if w = now div win then bucket_avail cap w b - 1 else unat cap)"
proof (cases "w = now div win")
  case True
  then show ?thesis using spend_avail_eq [OF assms] by simp
qed (auto simp: bucket_avail_def spend_def Let_def)

lemma map_avail_spend:
  assumes "store_inv m" and "map_of m k' \<noteq> None \<or> store_room m" and "0 < cap"
    and "peek (bucket_at (bucket_for ord m k' cap now win) k') now win"
  shows "map_avail cap w k (AList.update k' (spend (bucket_at (bucket_for ord m k' cap now win) k') cap now win)
           (bucket_for ord m k' cap now win)) =
    (if k' \<noteq> k then map_avail cap w k m
     else if w = now div win then map_avail cap w k m - 1 else unat cap)"
  using assms by (auto simp: map_avail_put spend_avail_window bucket_at_avail map_avail_ensure)

section \<open>The relation\<close>

text \<open>\<open>S\<close> and \<open>A\<close> are the sessions and the folded sources that call.\<close>

definition log_rel :: "u32 \<Rightarrow> u32 \<Rightarrow> string set \<Rightarrow> ip_addr set \<Rightarrow> grant list \<Rightarrow> observe_limiter \<Rightarrow> bool" where
  "log_rel cap gcap S A log lim \<longleftrightarrow>
     limiter_inv cap gcap lim \<and> fst ` set (per_session lim) \<subseteq> S \<and> fst ` set (per_source lim) \<subseteq> A
     \<and> (\<forall>k. tracks cap SESSION_SOURCE_WINDOW_MS (\<lambda>(s, _, _). s = k) log (\<lambda>w. map_avail cap w k (per_session lim)))
     \<and> (\<forall>k. tracks cap SESSION_SOURCE_WINDOW_MS (\<lambda>(_, a, _). a = k) log (\<lambda>w. map_avail cap w k (per_source lim)))
     \<and> tracks gcap GLOBAL_WINDOW_MS (\<lambda>_. True) log (\<lambda>w. bucket_avail gcap w (global lim))"

definition call_ok :: "string set \<Rightarrow> ip_addr set \<Rightarrow> grant list \<Rightarrow> call \<Rightarrow> bool" where
  "call_ok S A log c \<longleftrightarrow> (case c of (_, session, source, now) \<Rightarrow> session \<in> S \<and> fold_ip source \<in> A \<and> timely log now)"

lemma store_room_of_keys:
  assumes "store_inv m" and "fst ` set m \<subseteq> S" and "finite S" and "card S \<le> MAX_TRACKED_SOURCES" and "k \<in> S"
  shows "map_of m k \<noteq> None \<or> store_room m"
proof (cases "map_of m k")
  case None
  then have "k \<notin> fst ` set m" by (simp add: map_of_eq_None_iff)
  then have "fst ` set m \<subset> S" using assms(2,5) by blast
  then have "card (fst ` set m) < card S" by (rule psubset_card_mono [OF assms(3)])
  moreover have "card (fst ` set m) = length m"
    using assms(1) by (metis distinct_card length_map list.set_map store_inv_def)
  ultimately show ?thesis using assms(4) by (simp add: store_room_def)
qed simp

lemma keys_update: "fst ` set m \<subseteq> S \<Longrightarrow> k \<in> S \<Longrightarrow> fst ` set (AList.update k b m) \<subseteq> S"
  by (metis dom_map_of_conv_image_fst AList.update_conv' dom_fun_upd insert_subset option.discI)

lemma keys_ensure:
  assumes "fst ` set m \<subseteq> S" and "k \<in> S" and "map_of m k \<noteq> None \<or> store_room m"
  shows "fst ` set (bucket_for ord m k cap now win) \<subseteq> S"
  using assms keys_update [OF assms(1,2)]
  by (cases "map_of m k") (simp_all add: bucket_for_present bucket_for_room)

text \<open>What the two maps give for one call of a related limiter.\<close>

lemma permits_avail:
  assumes "limiter_inv cap gcap lim" and "0 < cap"
  shows "session_permits ords lim session now \<longleftrightarrow>
      0 < map_avail cap (now div SESSION_SOURCE_WINDOW_MS) session (per_session lim)"
    and "source_permits ords lim source now \<longleftrightarrow>
      0 < map_avail cap (now div SESSION_SOURCE_WINDOW_MS) (fold_ip source) (per_source lim)"
  using assms
  by (simp_all add: session_permits_def source_permits_def session_map_def source_map_def peek_avail
      bucket_at_avail limiter_inv_def)

lemma rel_permits:
  assumes "log_rel cap gcap S A log lim" and "0 < cap" and "0 < gcap" and "timely log now"
  shows "spec_allow cap gcap log session source now \<longleftrightarrow>
    session_permits ords lim session now \<and> source_permits ords lim source now \<and> peek (global lim) now GLOBAL_WINDOW_MS"
proof -
  have inv: "limiter_inv cap gcap lim"
    and tracks: "tracks cap SESSION_SOURCE_WINDOW_MS (\<lambda>(s, _, _). s = session) log (\<lambda>w. map_avail cap w session (per_session lim))"
      "tracks cap SESSION_SOURCE_WINDOW_MS (\<lambda>(_, a, _). a = fold_ip source) log (\<lambda>w. map_avail cap w (fold_ip source) (per_source lim))"
      "tracks gcap GLOBAL_WINDOW_MS (\<lambda>_. True) log (\<lambda>w. bucket_avail gcap w (global lim))"
    using assms(1) by (simp_all add: log_rel_def)
  show ?thesis
    using tracks [THEN tracks_now, OF assms(4)]
    by (simp add: spec_allow_def permits_avail [OF inv assms(2)] peek_avail [OF assms(3)])
qed

text \<open>The maps of a call that fits, touched or charged.\<close>

lemma rel_maps:
  assumes "log_rel cap gcap S A log lim" and "finite S" and "card S \<le> MAX_TRACKED_SOURCES"
    and "finite A" and "card A \<le> MAX_TRACKED_SOURCES" and "session \<in> S" and "fold_ip source \<in> A"
  shows "map_of (per_session lim) session \<noteq> None \<or> store_room (per_session lim)"
    and "map_of (per_source lim) (fold_ip source) \<noteq> None \<or> store_room (per_source lim)"
    and "fst ` set (session_map ords lim session now) \<subseteq> S" and "fst ` set (source_map ords lim source now) \<subseteq> A"
proof -
  have lim: "store_inv (per_session lim)" "store_inv (per_source lim)"
      "fst ` set (per_session lim) \<subseteq> S" "fst ` set (per_source lim) \<subseteq> A"
    using assms(1) by (simp_all add: log_rel_def limiter_inv_def)
  show fits: "map_of (per_session lim) session \<noteq> None \<or> store_room (per_session lim)"
      "map_of (per_source lim) (fold_ip source) \<noteq> None \<or> store_room (per_source lim)"
    by (rule store_room_of_keys [OF lim(1,3) assms(2,3,6)], rule store_room_of_keys [OF lim(2,4) assms(4,5,7)])
  show "fst ` set (session_map ords lim session now) \<subseteq> S" "fst ` set (source_map ords lim source now) \<subseteq> A"
    unfolding session_map_def source_map_def
    by (rule keys_ensure [OF lim(3) assms(6) fits(1)], rule keys_ensure [OF lim(4) assms(7) fits(2)])
qed

lemma rel_step:
  assumes rel: "log_rel cap gcap S A log lim" and cap: "0 < cap" and gcap: "0 < gcap"
    and S: "finite S" "card S \<le> MAX_TRACKED_SOURCES" and A: "finite A" "card A \<le> MAX_TRACKED_SOURCES"
    and call: "session \<in> S" "fold_ip source \<in> A" "timely log now"
  shows "snd (allow ords lim session source now) = spec_allow cap gcap log session source now"
    and "log_rel cap gcap S A (fst (spec_step cap gcap log (ords, session, source, now)))
      (fst (allow ords lim session source now))"
proof -
  have inv: "limiter_inv cap gcap lim" using rel by (simp add: log_rel_def)
  then have maps: "store_inv (per_session lim)" "store_inv (per_source lim)"
      "session_and_source_capacity lim = cap" "global_capacity lim = gcap"
    by (simp_all add: limiter_inv_def)
  have old: "tracks cap SESSION_SOURCE_WINDOW_MS (\<lambda>(s, _, _). s = k) log (\<lambda>w. map_avail cap w k (per_session lim))"
      "tracks cap SESSION_SOURCE_WINDOW_MS (\<lambda>(_, a, _). a = b) log (\<lambda>w. map_avail cap w b (per_source lim))"
      "tracks gcap GLOBAL_WINDOW_MS (\<lambda>_. True) log (\<lambda>w. bucket_avail gcap w (global lim))"
      "fst ` set (per_session lim) \<subseteq> S" "fst ` set (per_source lim) \<subseteq> A" for k b
    using rel by (simp_all add: log_rel_def)
  note fits = rel_maps(1,2) [OF rel S A call(1,2)]
  note keys = rel_maps(3,4) [OF rel S A call(1,2), where ords = ords and now = now]
  note permits = rel_permits [OF rel cap gcap call(3), of session source ords]
  note result = allow_eq [OF maps(1,2), of ords session source now]
  note unfolded_maps = session_map_def source_map_def maps
  note kept = map_avail_touch [OF maps(1) fits(1)] map_avail_touch [OF maps(2) fits(2)]
    map_avail_ensure [OF maps(1) fits(1)] map_avail_ensure [OF maps(2) fits(2)]
  show "snd (allow ords lim session source now) = spec_allow cap gcap log session source now"
    unfolding permits by (simp add: result Let_def)
  have new_inv: "limiter_inv cap gcap (fst (allow ords lim session source now))" by (rule allow_inv [OF inv])
  show "log_rel cap gcap S A (fst (spec_step cap gcap log (ords, session, source, now)))
      (fst (allow ords lim session source now))"
  proof (cases "spec_allow cap gcap log session source now")
    case False
    then have "\<not> (session_permits ords lim session now \<and> source_permits ords lim source now
        \<and> peek (global lim) now GLOBAL_WINDOW_MS)" by (simp add: permits)
    then show ?thesis
      using new_inv False old keys kept call(1,2)
      by (auto simp: log_rel_def result Let_def unfolded_maps keys_update)
  next
    case True
    then have p: "session_permits ords lim session now" "source_permits ords lim source now"
        "peek (global lim) now GLOBAL_WINDOW_MS" by (simp_all add: permits)
    let ?g = "(session, fold_ip source, now)"
    note spent = map_avail_spend [OF maps(1) fits(1) cap p(1) [unfolded session_permits_def unfolded_maps]]
      map_avail_spend [OF maps(2) fits(2) cap p(2) [unfolded source_permits_def unfolded_maps]]
      spend_avail_window [OF gcap p(3)]
    let ?l = "fst (allow ords lim session source now)"
    have positive: "0 < map_avail cap (now div SESSION_SOURCE_WINDOW_MS) session (per_session lim)"
        "0 < map_avail cap (now div SESSION_SOURCE_WINDOW_MS) (fold_ip source) (per_source lim)"
        "0 < bucket_avail gcap (now div GLOBAL_WINDOW_MS) (global lim)"
      using p by (simp_all add: permits_avail [OF inv cap] peek_avail [OF gcap])
    have "tracks cap SESSION_SOURCE_WINDOW_MS (\<lambda>(s, _, _). s = k) (?g # log) (\<lambda>w. map_avail cap w k (per_session ?l))" for k
      by (rule tracks_grant [OF old(1) [of k] call(3)])
        (use positive in \<open>auto simp: result Let_def p spent unfolded_maps\<close>)
    moreover have "tracks cap SESSION_SOURCE_WINDOW_MS (\<lambda>(_, a, _). a = k) (?g # log) (\<lambda>w. map_avail cap w k (per_source ?l))" for k
      by (rule tracks_grant [OF old(2) [of k] call(3)])
        (use positive in \<open>auto simp: result Let_def p spent unfolded_maps\<close>)
    moreover have "tracks gcap GLOBAL_WINDOW_MS (\<lambda>_. True) (?g # log) (\<lambda>w. bucket_avail gcap w (global ?l))"
      by (rule tracks_grant [OF old(3) call(3)])
        (use positive in \<open>auto simp: result Let_def p spent maps\<close>)
    moreover have "fst ` set (per_session ?l) \<subseteq> S" "fst ` set (per_source ?l) \<subseteq> A"
      using keys call(1,2) by (simp_all add: result Let_def p keys_update)
    ultimately show ?thesis
      using True new_inv by (simp add: log_rel_def)
  qed
qed

lemma log_rel_new: "log_rel cap gcap S A [] (limiter_new cap gcap)"
  using limiter_new_inv [of cap gcap]
  by (simp add: log_rel_def tracks_def window_count_def) (simp add: limiter_new_def map_avail_def)

text \<open>The capacities are positive, and the maps have room for everybody who calls.\<close>

definition roomy :: "u32 \<Rightarrow> u32 \<Rightarrow> string set \<Rightarrow> ip_addr set \<Rightarrow> bool" where
  "roomy cap gcap S A \<longleftrightarrow>
     0 < cap \<and> 0 < gcap \<and> finite S \<and> card S \<le> MAX_TRACKED_SOURCES \<and> finite A \<and> card A \<le> MAX_TRACKED_SOURCES"

interpretation limiter: call_simulation allow_call "spec_step cap gcap" "call_ok S A"
  "\<lambda>log lim. roomy cap gcap S A \<and> log_rel cap gcap S A log lim" for cap gcap S A
proof
  fix log lim and c :: call
  assume "roomy cap gcap S A \<and> log_rel cap gcap S A log lim" and ok: "call_ok S A log c"
  then have rel: "log_rel cap gcap S A log lim" and r: "roomy cap gcap S A" by simp_all
  obtain ords session source now where c: "c = (ords, session, source, now)" by (metis prod_cases4)
  have "session \<in> S" "fold_ip source \<in> A" "timely log now" using ok by (simp_all add: c call_ok_def)
  with r rel_step [OF rel, of session source now ords]
  show "snd (allow_call lim c) = snd (spec_step cap gcap log c)"
    and "roomy cap gcap S A \<and> log_rel cap gcap S A (fst (spec_step cap gcap log c)) (fst (allow_call lim c))"
    by (simp_all add: c roomy_def)
qed

fun call_time :: "call \<Rightarrow> u64" where
  "call_time (ords, session, source, now) = now"

fun call_session :: "call \<Rightarrow> string" where
  "call_session (ords, session, source, now) = session"

fun call_source :: "call \<Rightarrow> ip_addr" where
  "call_source (ords, session, source, now) = fold_ip source"

lemma run_ok_sorted:
  "sorted (map call_time cs) \<Longrightarrow> call_session ` set cs \<subseteq> S \<Longrightarrow> call_source ` set cs \<subseteq> A \<Longrightarrow>
   (\<forall>c \<in> set cs. timely log (call_time c)) \<Longrightarrow> run_ok (call_ok S A) (spec_step cap gcap) log cs"
proof (induction cs arbitrary: log)
  case (Cons c cs)
  obtain ords session source now where c: "c = (ords, session, source, now)" by (metis prod_cases4)
  have "\<forall>c' \<in> set cs. timely (fst (spec_step cap gcap log c)) (call_time c')"
    using Cons.prems(1,4) by (auto simp: c timely_def)
  with Cons show ?case by (auto simp: c call_ok_def simp del: spec_step.simps)
qed simp

section \<open>Properties\<close>

text \<open>C6: the limiter is the count. For positive capacities, any hash orders and any sequence of calls whose
  times do not decrease, from at most \<open>MAX_TRACKED_SOURCES\<close> sessions and as many folded sources, a new
  limiter grants exactly the calls that a full log of grants allows: one more in this minute for the
  session and for the folded source, and one more in this second for everybody. So nobody within
  budget is ever refused, and hash order, bucket bookkeeping and the re-creation of buckets never show.\<close>
theorem limiter_refines_log:
  assumes "0 < cap" and "0 < gcap" and "sorted (map call_time calls)"
    and "card (call_session ` set calls) \<le> MAX_TRACKED_SOURCES"
    and "card (call_source ` set calls) \<le> MAX_TRACKED_SOURCES"
  shows "snd (run_calls allow_call (limiter_new cap gcap) calls) = snd (run_calls (spec_step cap gcap) [] calls)"
proof -
  let ?S = "call_session ` set calls" and ?A = "call_source ` set calls"
  have "run_ok (call_ok ?S ?A) (spec_step cap gcap) [] calls"
    by (rule run_ok_sorted [OF assms(3)]) (simp_all add: timely_def)
  moreover have "roomy cap gcap ?S ?A \<and> log_rel cap gcap ?S ?A [] (limiter_new cap gcap)"
    using assms log_rel_new by (simp add: roomy_def)
  ultimately show ?thesis using limiter.run_same by blast
qed

theorem limiter_refines_log_witness:
  "snd (run_calls allow_call (limiter_new 1 64) [example_call, example_call])
     = snd (run_calls (spec_step 1 64) [] [example_call, example_call])
   \<and> snd (run_calls (spec_step 1 64) [] [example_call, example_call]) = [True, False]"
proof
  show "snd (run_calls allow_call (limiter_new 1 64) [example_call, example_call])
      = snd (run_calls (spec_step 1 64) [] [example_call, example_call])"
    by (rule limiter_refines_log) (simp_all add: MAX_TRACKED_SOURCES_def)
  show "snd (run_calls (spec_step 1 64) [] [example_call, example_call]) = [True, False]"
    by (simp add: spec_allow_def window_count_def)
qed

section \<open>Beyond the bound\<close>

text \<open>What the two side conditions of the refinement exclude. Past \<open>MAX_TRACKED_SOURCES\<close> keys an
  exhausted bucket is forgotten: the least recently seen key, out of tokens, is evicted by one call
  under a new key and then starts full again in the same window, so the promised number of answers
  per minute no longer holds for it.\<close>

lemma eviction_refills:
  assumes "store_inv m" and "length m = MAX_TRACKED_SOURCES" and "0 < cap"
    and "map_of m victim = Some vb" and "\<not> peek vb now win"
    and "\<And>k b. map_of m k = Some b \<Longrightarrow> k \<noteq> victim \<Longrightarrow> last_seen_ms vb < last_seen_ms b"
    and "map_of m key = None"
  shows "\<not> peek (bucket_at m victim) now win
    \<and> peek (bucket_at (bucket_for ord (bucket_for ord m key cap now win) victim cap now win) victim) now win"
proof -
  have "\<not> store_room m" using assms(2) by (simp add: store_room_def)
  then obtain v b where v: "(v, b) \<in> set m" "\<forall>(k', b') \<in> set m. last_seen_ms b \<le> last_seen_ms b'"
    and eq: "bucket_for ord m key cap now win = AList.update key (bucket_new cap now win) (AList.delete v m)"
    using bucket_for_full [OF assms(7)] by metis
  have d: "distinct (map fst m)" using assms(1) by (simp add: store_inv_def)
  then have "map_of m v = Some b" using v(1) by (rule map_of_is_SomeI)
  moreover have "(victim, vb) \<in> set m" using assms(4) by (rule map_of_SomeD)
  then have "last_seen_ms b \<le> last_seen_ms vb" using v(2) by blast
  ultimately have "v = victim" using assms(6) [of v b] by (meson not_less)
  then have gone: "map_of (bucket_for ord m key cap now win) victim = None"
    using assms(4,7) by (auto simp: eq map_of_delete_update)
  have "store_inv (bucket_for ord m key cap now win)" by (rule store.ensure_inv [OF assms(1)])
  from store.ensure_get [OF this, of ord victim cap now win]
  have "bucket_at (bucket_for ord (bucket_for ord m key cap now win) victim cap now win) victim = bucket_new cap now win"
    by (simp add: gone bucket_at_def)
  then show ?thesis using assms(3-5) by (simp add: bucket_at_def peek_def bucket_new_def)
qed

text \<open>Nor is eviction least recently seen: a session that asks and is refused for its source's or the
  global budget is not touched, although the code says an actively asking session is; its entry
  keeps the time of its last grant.\<close>

lemma refusal_keeps_last_seen:
  assumes "limiter_reach cap gcap lim" and "map_of (per_session lim) session = Some b"
    and "session_permits ords lim session now"
    and "\<not> source_permits ords lim source now \<or> \<not> peek (global lim) now GLOBAL_WINDOW_MS"
  shows "\<not> snd (allow ords lim session source now)
    \<and> map_of (per_session (fst (allow ords lim session source now))) session = Some b"
proof -
  have "store_inv (per_session lim)" "store_inv (per_source lim)"
    using limiter_reach_inv [OF assms(1)] by (simp_all add: limiter_inv_def)
  then show ?thesis
    using assms(2-4) by (auto simp: allow_eq Let_def session_map_def bucket_for_present)
qed

text \<open>And time has to run forwards. The windows are only told apart, not ordered: a caller whose clock
  readings keep changing the minute, be it back and forth between two, is always granted, whatever the
  capacities, even zero.\<close>

definition charged_at :: "observe_limiter \<Rightarrow> string \<Rightarrow> ip_addr \<Rightarrow> u64 \<Rightarrow> bool" where
  "charged_at lim session source m \<longleftrightarrow>
     (\<exists>b. map_of (per_session lim) session = Some b \<and> window b = m div SESSION_SOURCE_WINDOW_MS)
     \<and> (\<exists>b. map_of (per_source lim) (fold_ip source) = Some b \<and> window b = m div SESSION_SOURCE_WINDOW_MS)
     \<and> window (global lim) = m div GLOBAL_WINDOW_MS"

lemma window_change_grants:
  assumes "limiter_inv cap gcap lim" and "charged_at lim session source m"
    and "now div SESSION_SOURCE_WINDOW_MS \<noteq> m div SESSION_SOURCE_WINDOW_MS"
  shows "snd (allow ords lim session source now) \<and> charged_at (fst (allow ords lim session source now)) session source now"
proof -
  have "now div GLOBAL_WINDOW_MS \<noteq> m div GLOBAL_WINDOW_MS"
    using assms(3) second_in_minute [of now] second_in_minute [of m] by metis
  moreover have "store_inv (per_session lim)" "store_inv (per_source lim)"
    using assms(1) by (simp_all add: limiter_inv_def)
  moreover have "window (spend b c n w) = n div w" for b c n w by (simp add: spend_def Let_def)
  ultimately show ?thesis
    using assms(2,3)
    by (auto simp: charged_at_def allow_eq Let_def session_permits_def source_permits_def session_map_def
        source_map_def bucket_for_present bucket_at_def peek_def AList.update_conv')
qed

lemma alternating_clock_always_granted:
  assumes "limiter_inv cap gcap lim" and "charged_at lim session source m"
    and "successively (\<lambda>n n'. n div SESSION_SOURCE_WINDOW_MS \<noteq> n' div SESSION_SOURCE_WINDOW_MS) (m # ns)"
  shows "list_all (\<lambda>g. g) (snd (run_calls allow_call lim (map (\<lambda>n. (ords, session, source, n)) ns)))"
  using assms
proof (induction ns arbitrary: lim m)
  case (Cons n ns)
  note step = window_change_grants [OF Cons.prems(1,2), of n ords]
  with Cons.IH [OF allow_inv [OF Cons.prems(1)], of ords session source n n] Cons.prems(3)
  show ?case by (auto simp: case_prod_beta Let_def)
qed simp

end
