(* ===== verification/LimitedServer.thy ===== *)
theory LimitedServer
  imports Server LimiterSpec
begin

text \<open>
  The server behind its limiter: the order of SPEC.md section 14.5 in full. A datagram is classified,
  then the limiter of \<open>src/observe.rs\<close> is asked, and only then is a nonce checked or a signature
  verified. What a session is to a UDP server is the deployment's choice, an argument here.
\<close>

section \<open>The composition\<close>

text \<open>The reply, and how often the signature was verified.\<close>

definition server_work ::
  "mac \<Rightarrow> verifier \<Rightarrow> nonce_issuer \<Rightarrow> credential_mode \<Rightarrow> socket_addr \<Rightarrow> u64 \<Rightarrow> bytes \<Rightarrow> (bytes option \<times> nat) option" where
  "server_work hmac ecdsa issuer mode src now d =
     (case classify_request d of
        None \<Rightarrow> None
      | Some (Inl Malformed) \<Rightarrow>
          (case parse_binding_request d of
             Some (Inr t) \<Rightarrow> map_option (\<lambda>r. (Some r, 0)) (encode_challenge t 400 None)
           | _ \<Rightarrow> Some (None, 0))
      | Some (Inl _) \<Rightarrow> Some (None, 0)
      | Some (Inr (t, kind)) \<Rightarrow> do {
          nc \<leftarrow> (case kind of
              Signed _ n _ \<Rightarrow> map_option Some (check_nonce hmac issuer n src now)
            | _ \<Rightarrow> Some None);
          (dec, calls) \<leftarrow> reference_server_decide ecdsa mode kind nc t;
          r \<leftarrow> carry_out hmac issuer src now t dec;
          Some (Some r, calls) })"

text \<open>A datagram that is no Binding request is dropped before the limiter sees it.\<close>

definition limited_server ::
  "mac \<Rightarrow> verifier \<Rightarrow> nonce_issuer \<Rightarrow> credential_mode \<Rightarrow> (socket_addr \<Rightarrow> string) \<Rightarrow> orders \<Rightarrow> observe_limiter
   \<Rightarrow> socket_addr \<Rightarrow> u64 \<Rightarrow> bytes \<Rightarrow> (observe_limiter \<times> bytes option \<times> nat) option" where
  "limited_server hmac ecdsa issuer mode label ords lim src now_ms d =
     (case classify_request d of
        None \<Rightarrow> None
      | Some (Inl (credential_error.Stun _)) \<Rightarrow> Some (lim, None, 0)
      | _ \<Rightarrow>
          (let (lim, permitted) = allow ords lim (label src) (sock_ip src) now_ms
           in if \<not> permitted then Some (lim, None, 0)
              else map_option (Pair lim) (server_work hmac ecdsa issuer mode src (now_ms div 1000) d)))"

section \<open>Lemmas\<close>

lemma server_work_reply:
  "map_option fst (server_work hmac ecdsa issuer mode src now d) = server_reply hmac ecdsa issuer mode src now d"
proof (cases "classify_request d")
  case (Some c)
  show ?thesis
  proof (cases c)
    case (Inl e)
    then show ?thesis
      by (cases e) (auto simp: server_work_def server_reply_def Some option.map_comp comp_def split: option.split sum.split)
  next
    case (Inr tk)
    then show ?thesis
      by (cases tk) (auto simp: server_work_def server_reply_def Some case_prod_beta split: Option.bind_split option.split)
  qed
qed (simp add: server_work_def server_reply_def)

lemma reference_calls:
  "reference_server_decide ecdsa mode kind nc t = Some (dec, calls) \<Longrightarrow>
   calls \<le> 1 \<and> (calls = 1 \<longrightarrow> (\<exists>spki n sig. kind = Signed spki n sig) \<and> nc = Some Fresh)"
  by (cases "\<exists>spki n sig. kind = Signed spki n sig \<and> nc = Some Fresh")
    (auto simp: reference_signed_fresh reference_other)

text \<open>A verification is for a signed request with a fresh nonce, there is at most one, and it is replied to.\<close>

lemma server_work_calls:
  assumes "server_work hmac ecdsa issuer mode src now d = Some (reply, calls)"
  shows "calls \<le> 1 \<and> (0 < calls \<longrightarrow> reply \<noteq> None
    \<and> (\<exists>t spki n sig. classify_request d = Some (Inr (t, Signed spki n sig)) \<and> check_nonce hmac issuer n src now = Some Fresh))"
proof (cases "classify_request d")
  case (Some c)
  show ?thesis
  proof (cases c)
    case (Inl e)
    then show ?thesis
      using assms by (cases e) (auto simp: server_work_def Some split: option.splits sum.splits)
  next
    case (Inr tk)
    obtain t kind where tk: "tk = (t, kind)" by (rule prod.exhaust)
    obtain nc dec where nc: "(case kind of Signed _ n _ \<Rightarrow> map_option Some (check_nonce hmac issuer n src now) | _ \<Rightarrow> Some None) = Some nc"
      and dec: "reference_server_decide ecdsa mode kind nc t = Some (dec, calls)" and "reply \<noteq> None"
      using assms by (fastforce simp: server_work_def Some Inr tk split: Option.bind_splits)
    then show ?thesis
      using reference_calls [OF dec] by (cases kind) (auto simp: Some Inr tk)
  qed
qed (use assms in \<open>simp add: server_work_def\<close>)

lemma limited_server_total:
  assumes "hmac_sha256_output hmac"
  shows "\<exists>lim' reply calls. limited_server hmac ecdsa issuer mode label ords lim src now_ms d = Some (lim', reply, calls)"
proof -
  obtain c where c: "classify_request d = Some c" using classify_total by blast
  obtain w where "server_work hmac ecdsa issuer mode src (now_ms div 1000) d = Some w"
    using server_reply_total [OF assms, of ecdsa issuer mode src "now_ms div 1000" d]
    unfolding server_work_reply [symmetric] by blast
  moreover obtain reply calls where "w = (reply, calls)" by (rule prod.exhaust)
  ultimately show ?thesis
    by (auto simp: limited_server_def c case_prod_beta Let_def split: sum.split credential_error.split)
qed

text \<open>The limiter only drops: what the limited server replies, the server of theory Server replies. So what
  holds of every reply there, or on a network that may lose any of them, holds here.\<close>

lemma limited_reply_is_reply:
  assumes "limited_server hmac ecdsa issuer mode label ords lim src now_ms d = Some (lim', Some r, calls)"
  shows "server_reply hmac ecdsa issuer mode src (now_ms div 1000) d = Some (Some r)"
proof -
  have "server_work hmac ecdsa issuer mode src (now_ms div 1000) d = Some (Some r, calls)"
    using assms
    by (auto simp: limited_server_def case_prod_beta Let_def split: option.splits sum.splits credential_error.splits if_splits)
  then show ?thesis using server_work_reply [of hmac ecdsa issuer mode src "now_ms div 1000" d] by simp
qed

text \<open>One datagram, as a step whose answer is whether it was replied to.\<close>

type_synonym datagram = "orders \<times> socket_addr \<times> u64 \<times> bytes"

definition serve_one ::
  "mac \<Rightarrow> verifier \<Rightarrow> nonce_issuer \<Rightarrow> credential_mode \<Rightarrow> (socket_addr \<Rightarrow> string) \<Rightarrow> observe_limiter \<Rightarrow> datagram
   \<Rightarrow> observe_limiter \<times> bytes option \<times> nat" where
  "serve_one hmac ecdsa issuer mode label lim dg =
     (case dg of (ords, src, now_ms, d) \<Rightarrow> the (limited_server hmac ecdsa issuer mode label ords lim src now_ms d))"

fun serve_all ::
  "mac \<Rightarrow> verifier \<Rightarrow> nonce_issuer \<Rightarrow> credential_mode \<Rightarrow> (socket_addr \<Rightarrow> string) \<Rightarrow> observe_limiter \<Rightarrow> datagram list
   \<Rightarrow> observe_limiter \<times> bytes option list \<times> nat" where
  "serve_all hmac ecdsa issuer mode label lim [] = (lim, [], 0)"
| "serve_all hmac ecdsa issuer mode label lim (dg # dgs) =
     (let (lim, reply, calls) = serve_one hmac ecdsa issuer mode label lim dg;
          (lim, replies, calls') = serve_all hmac ecdsa issuer mode label lim dgs
      in (lim, reply # replies, calls + calls'))"

text \<open>The limiter changes by at most the one call of \<open>allow\<close>, and only a granted call is replied to.\<close>

lemma serve_one_step:
  assumes "hmac_sha256_output hmac" and "serve_one hmac ecdsa issuer mode label lim (ords, src, now_ms, d) = (lim', reply, calls)"
  shows "calls \<le> (if reply = None then 0 else 1)"
    and "lim' = lim \<and> reply = None
      \<or> lim' = fst (allow ords lim (label src) (sock_ip src) now_ms)
        \<and> (reply \<noteq> None \<longrightarrow> snd (allow ords lim (label src) (sock_ip src) now_ms))"
proof -
  have eq: "limited_server hmac ecdsa issuer mode label ords lim src now_ms d = Some (lim', reply, calls)"
    using limited_server_total [OF assms(1), of ecdsa issuer mode label ords lim src now_ms d] assms(2)
    by (auto simp: serve_one_def)
  have work: "calls \<le> (if reply = None then 0 else 1)"
    if "server_work hmac ecdsa issuer mode src (now_ms div 1000) d = Some (reply, calls)"
    using server_work_calls [OF that] by (cases calls) auto
  show "calls \<le> (if reply = None then 0 else 1)"
    and "lim' = lim \<and> reply = None
      \<or> lim' = fst (allow ords lim (label src) (sock_ip src) now_ms)
        \<and> (reply \<noteq> None \<longrightarrow> snd (allow ords lim (label src) (sock_ip src) now_ms))"
    using eq work
    by (auto simp: limited_server_def case_prod_beta Let_def split: option.splits sum.splits credential_error.splits if_splits)
qed

lemma serve_all_le:
  assumes "hmac_sha256_output hmac"
  shows "snd (snd (serve_all hmac ecdsa issuer mode label lim dgs))
    \<le> length (filter (\<lambda>r. r \<noteq> None) (fst (snd (serve_all hmac ecdsa issuer mode label lim dgs))))"
proof (induction dgs arbitrary: lim)
  case (Cons dg dgs)
  obtain ords src now_ms d where dg: "dg = (ords, src, now_ms, d)" by (metis prod_cases4)
  obtain lim' reply calls where s: "serve_one hmac ecdsa issuer mode label lim dg = (lim', reply, calls)" by (metis prod_cases3)
  have "calls \<le> (if reply = None then 0 else 1)" by (rule serve_one_step(1) [OF assms s [unfolded dg]])
  with Cons.IH [of lim'] s show ?case by (auto simp: case_prod_beta Let_def split: if_splits)
qed simp

lemma serve_all_budget:
  assumes "hmac_sha256_output hmac" and "limiter_inv cap gcap lim" and "0 < gcap"
    and "\<forall>(ords, src, now_ms, d) \<in> set dgs. now_ms div GLOBAL_WINDOW_MS = w"
  shows "length (filter (\<lambda>r. r \<noteq> None) (fst (snd (serve_all hmac ecdsa issuer mode label lim dgs))))
    \<le> bucket_avail gcap w (global lim)"
  using assms(2,4)
proof (induction dgs arbitrary: lim)
  case (Cons dg dgs)
  obtain ords src now_ms d where dg: "dg = (ords, src, now_ms, d)" by (metis prod_cases4)
  obtain lim' reply calls where s: "serve_one hmac ecdsa issuer mode label lim dg = (lim', reply, calls)" by (metis prod_cases3)
  let ?c = "(ords, label src, sock_ip src, now_ms)"
  have w: "in_window GLOBAL_WINDOW_MS w lim ?c" using Cons.prems(2) by (simp add: dg in_window_def)
  have inv: "0 < gcap \<and> limiter_inv cap gcap lim" using assms(3) Cons.prems(1) by simp
  have "limiter_inv cap gcap lim'
      \<and> bucket_avail gcap w (global lim') + (if reply = None then 0 else 1) \<le> bucket_avail gcap w (global lim)"
    using serve_one_step(2) [OF assms(1) s [unfolded dg]] global_budget.step_spends [OF inv w]
      allow_inv [OF Cons.prems(1), of ords "label src" "sock_ip src" now_ms] Cons.prems(1)
    by (auto split: if_splits)
  with Cons.IH [of lim'] Cons.prems(2) s show ?case by (auto simp: case_prod_beta Let_def)
qed simp

section \<open>Properties\<close>

text \<open>A verification costs its sender a round trip: before the signature is looked at, the limiter has
  granted the datagram and the nonce is one this issuer made for this source in this minute or the last.\<close>

lemma verified_after_round_trip:
  assumes "hmac_sha256_output hmac"
    and "limited_server hmac ecdsa issuer mode label ords lim src now_ms d = Some (lim', reply, calls)" and "0 < calls"
  shows "snd (allow ords lim (label src) (sock_ip src) now_ms)
    \<and> (\<exists>t spki n sig b. classify_request d = Some (Inr (t, Signed spki n sig))
         \<and> base64url_decode n = Some (genuine hmac issuer b src)
         \<and> (b = bucket_of (now_ms div 1000) \<or> b + 1 = bucket_of (now_ms div 1000)))"
proof -
  have "snd (allow ords lim (label src) (sock_ip src) now_ms)
      \<and> server_work hmac ecdsa issuer mode src (now_ms div 1000) d = Some (reply, calls)"
    using assms(2,3)
    by (auto simp: limited_server_def case_prod_beta Let_def split: option.splits sum.splits credential_error.splits if_splits)
  then show ?thesis
    using server_work_calls assms(3) nonce_fresh_genuine [OF assms(1)] by meson
qed

text \<open>C11: the bound on work. From every state the limiter can be in, with a positive global budget, and
  for every sequence of datagrams inside one second (any senders, any bytes, any hash orders): at most
  \<open>global_capacity\<close> of them are replied to, and at most as many signatures are verified as replies are
  sent. The server never panics, and verifies a signature only for a datagram the limiter granted whose
  nonce this issuer made for this source in this minute or the one before.\<close>
theorem verification_budget:
  fixes ecdsa :: verifier and issuer :: nonce_issuer and mode :: credential_mode and label :: "socket_addr \<Rightarrow> string"
  assumes "hmac_sha256_output hmac" and "limiter_reach cap gcap lim" and "0 < gcap"
    and "\<forall>(ords, src, now_ms, d) \<in> set dgs. now_ms div GLOBAL_WINDOW_MS = w"
  defines "run \<equiv> serve_all hmac ecdsa issuer mode label lim dgs"
  shows "snd (snd run) \<le> length (filter (\<lambda>r. r \<noteq> None) (fst (snd run)))
    \<and> length (filter (\<lambda>r. r \<noteq> None) (fst (snd run))) \<le> unat gcap
    \<and> (\<exists>lim' reply calls. limited_server hmac ecdsa issuer mode label ords lim src now_ms d = Some (lim', reply, calls)
         \<and> (0 < calls \<longrightarrow> snd (allow ords lim (label src) (sock_ip src) now_ms)
             \<and> (\<exists>t spki n sig b. classify_request d = Some (Inr (t, Signed spki n sig))
                  \<and> base64url_decode n = Some (genuine hmac issuer b src)
                  \<and> (b = bucket_of (now_ms div 1000) \<or> b + 1 = bucket_of (now_ms div 1000)))))"
proof -
  have inv: "limiter_inv cap gcap lim" by (rule limiter_reach_inv [OF assms(2)])
  have "bucket_avail gcap w (global lim) \<le> unat gcap"
    using inv by (simp add: bucket_avail_def limiter_inv_def word_le_nat_alt)
  with serve_all_budget [OF assms(1) inv assms(3,4), of ecdsa issuer mode label]
  have "length (filter (\<lambda>r. r \<noteq> None) (fst (snd run))) \<le> unat gcap"
    unfolding run_def by (rule order_trans)
  moreover obtain lim' reply calls
    where l: "limited_server hmac ecdsa issuer mode label ords lim src now_ms d = Some (lim', reply, calls)"
    using limited_server_total [OF assms(1)] by blast
  moreover have "snd (snd run) \<le> length (filter (\<lambda>r. r \<noteq> None) (fst (snd run)))"
    unfolding run_def by (rule serve_all_le [OF assms(1)])
  ultimately show ?thesis
    using verified_after_round_trip [OF assms(1) l]
    by (intro conjI exI [of _ lim'] exI [of _ reply] exI [of _ calls]) simp_all
qed

theorem verification_budget_witness:
  "length (filter (\<lambda>r. r \<noteq> None) (fst (snd (serve_all example_hmac example_ecdsa (from_secret (replicate 32 5)) Required
      (\<lambda>_. ''udp'') (limiter_new 6 64) [(std_orders, example_mapped, 7, encode_binding_request (example_id 0))])))) \<le> unat (64 :: u32)"
  by (rule conjunct1 [OF conjunct2 [OF verification_budget [where w = 0, OF example_hmac_output limiter_reach.reach_new [of 6 64]]]])
    (simp_all add: GLOBAL_WINDOW_MS_def)

end
