(* ===== verification/Establish.thy ===== *)
theory Establish
  imports Scope
begin

text \<open>
  Provenance and agreement, \<open>src/establish.rs\<close>: readings, the grammar of source classes with its
  renderer and parser, and the rule that turns readings into a verdict per address family. The
  sort-and-deduplicate code is shown to compute a function of the set of readings, from which the
  statements on agreement and on Sybil resistance follow.
\<close>

section \<open>Readings and source classes\<close>

definition MIN_INDEPENDENT_CLASSES :: nat where "MIN_INDEPENDENT_CLASSES = 2"

definition PEER_ONLY_MIN_CLASSES :: nat where "PEER_ONLY_MIN_CLASSES = 3"

record reading =
  source :: string
  witness :: "string option"
  addr :: socket_addr

definition reading_new :: "string \<Rightarrow> socket_addr \<Rightarrow> reading" where
  "reading_new src a = \<lparr>source = src, witness = None, addr = a\<rparr>"

definition with_witness :: "reading \<Rightarrow> string \<Rightarrow> reading" where
  "with_witness r w = r\<lparr>witness := Some w\<rparr>"

datatype source_class =
    Operator string u16
  | Relay string
  | Public string
  | PeerV4 u8 u8
  | PeerV6 u16 u16

definition operator :: "string \<Rightarrow> u16 \<Rightarrow> source_class" where
  "operator host port = Operator host port"

definition relay :: "string \<Rightarrow> source_class" where
  "relay host = Relay host"

definition public :: "string \<Rightarrow> source_class" where
  "public host = Public host"

definition peer :: "ip_addr \<Rightarrow> source_class" where
  "peer ip =
     (case fold_ip ip of
        IpV4 v4 \<Rightarrow> (case v4 of Ipv4 a b _ _ \<Rightarrow> PeerV4 a b)
      | IpV6 v6 \<Rightarrow> (case v6 of Ipv6 s0 s1 _ _ _ _ _ _ \<Rightarrow> PeerV6 s0 s1))"

fun is_peer :: "source_class \<Rightarrow> bool" where
  "is_peer (PeerV4 _ _) \<longleftrightarrow> True"
| "is_peer (PeerV6 _ _) \<longleftrightarrow> True"
| "is_peer _ \<longleftrightarrow> False"

section \<open>The strings of the standard library\<close>

text \<open>\<open>strip_prefix\<close>, \<open>split_once\<close>, \<open>rsplit_once\<close> on a one-byte separator.\<close>

fun strip_prefix :: "string \<Rightarrow> string \<Rightarrow> string option" where
  "strip_prefix [] s = Some s"
| "strip_prefix (p # ps) [] = None"
| "strip_prefix (p # ps) (c # cs) = (if p = c then strip_prefix ps cs else None)"

fun split_once :: "char \<Rightarrow> string \<Rightarrow> (string \<times> string) option" where
  "split_once sep [] = None"
| "split_once sep (c # cs) =
     (if c = sep then Some ([], cs)
      else map_option (\<lambda>(l, r). (c # l, r)) (split_once sep cs))"

definition rsplit_once :: "char \<Rightarrow> string \<Rightarrow> (string \<times> string) option" where
  "rsplit_once sep s = map_option (\<lambda>(r, l). (rev l, rev r)) (split_once sep (rev s))"

text \<open>
  \<open>FromStr\<close> and \<open>from_str_radix\<close> of an unsigned type whose values are below \<open>bound\<close>: an
  optional leading \<open>+\<close>, at least one digit, no overflow.
\<close>

definition to_digit :: "nat \<Rightarrow> char \<Rightarrow> nat option" where
  "to_digit radix ch =
     (let c = of_char ch;
          d = (if 48 \<le> c \<and> c \<le> 57 then c - 48
               else if 97 \<le> c \<and> c \<le> 122 then c - 87
               else if 65 \<le> c \<and> c \<le> 90 then c - 55 else 36)
      in if d < radix then Some d else None)"

fun digits_value :: "nat \<Rightarrow> nat \<Rightarrow> nat \<Rightarrow> string \<Rightarrow> nat option" where
  "digits_value radix bound acc [] = Some acc"
| "digits_value radix bound acc (c # cs) =
     (case to_digit radix c of
        None \<Rightarrow> None
      | Some d \<Rightarrow>
          let n = acc * radix + d in if n < bound then digits_value radix bound n cs else None)"

definition uint_from_str :: "nat \<Rightarrow> nat \<Rightarrow> string \<Rightarrow> nat option" where
  "uint_from_str radix bound s =
     (case s of
        [] \<Rightarrow> None
      | c # cs \<Rightarrow>
          if cs = [] \<and> (c = CHR ''+'' \<or> c = CHR ''-'') then None
          else if c = CHR ''+'' then digits_value radix bound 0 cs
          else digits_value radix bound 0 s)"

definition parse_u8 :: "string \<Rightarrow> u8 option" where
  "parse_u8 s = map_option of_nat (uint_from_str 10 256 s)"

definition parse_u16 :: "string \<Rightarrow> u16 option" where
  "parse_u16 s = map_option of_nat (uint_from_str 10 65536 s)"

definition parse_hex_u16 :: "string \<Rightarrow> u16 option" where
  "parse_hex_u16 s = map_option of_nat (uint_from_str 16 65536 s)"

text \<open>The formatters \<open>{}\<close> and \<open>{:04x}\<close>.\<close>

definition from_digit :: "nat \<Rightarrow> char" where
  "from_digit d = (if d < 10 then char_of (48 + d) else char_of (87 + d))"

fun show_dec :: "nat \<Rightarrow> string" where
  "show_dec n = (if n < 10 then [from_digit n] else show_dec (n div 10) @ [from_digit (n mod 10)])"

declare show_dec.simps [simp del]

definition show_hex4 :: "nat \<Rightarrow> string" where
  "show_hex4 n =
     [from_digit (n div 4096 mod 16), from_digit (n div 256 mod 16), from_digit (n div 16 mod 16),
      from_digit (n mod 16)]"

section \<open>The grammar\<close>

fun render :: "source_class \<Rightarrow> string" where
  "render (Operator host port) = ''operator:'' @ host @ '':'' @ show_dec (unat port)"
| "render (Relay host) = ''relay:'' @ host"
| "render (Public host) = ''public:'' @ host"
| "render (PeerV4 a b) = ''peer:v4:'' @ show_dec (unat a) @ ''.'' @ show_dec (unat b)"
| "render (PeerV6 h0 h1) = ''peer:v6:'' @ show_hex4 (unat h0) @ '':'' @ show_hex4 (unat h1)"

definition source_class_parse :: "string \<Rightarrow> source_class option" where
  "source_class_parse s =
     (case strip_prefix ''operator:'' s of
        Some rest \<Rightarrow> do {
          (host, port) \<leftarrow> rsplit_once (CHR '':'') rest;
          port \<leftarrow> parse_u16 port;
          Some (Operator host port) }
      | None \<Rightarrow>
     (case strip_prefix ''relay:'' s of
        Some host \<Rightarrow> Some (Relay host)
      | None \<Rightarrow>
     (case strip_prefix ''public:'' s of
        Some host \<Rightarrow> Some (Public host)
      | None \<Rightarrow>
     (case strip_prefix ''peer:v4:'' s of
        Some rest \<Rightarrow> do {
          (a, b) \<leftarrow> split_once (CHR ''.'') rest;
          a \<leftarrow> parse_u8 a;
          b \<leftarrow> parse_u8 b;
          Some (PeerV4 a b) }
      | None \<Rightarrow>
     (case strip_prefix ''peer:v6:'' s of
        Some rest \<Rightarrow> do {
          (h0, h1) \<leftarrow> split_once (CHR '':'') rest;
          h0 \<leftarrow> parse_hex_u16 h0;
          h1 \<leftarrow> parse_hex_u16 h1;
          Some (PeerV6 h0 h1) }
      | None \<Rightarrow> None)))))"

section \<open>The agreement rule\<close>

datatype family_verdict =
    NoReadings
  | Disagreement "ip_addr list"
  | Insufficient nat bool
  | NotGlobal ip_addr scope
  | Established ip_addr nat

record established =
  ipv6 :: family_verdict
  ipv4 :: family_verdict

definition verdict_for_family :: "(ip_addr \<times> string) list \<Rightarrow> family_verdict" where
  "verdict_for_family readings =
     (if readings = [] then NoReadings
      else
        let addrs = remdups_adj (sort (map fst readings)) in
        if 1 < length addrs then Disagreement addrs
        else
          let ip = hd addrs;
              classes = remdups_adj (sort (map snd readings));
              peer_only = list_all (\<lambda>s. case source_class_parse s of Some c \<Rightarrow> is_peer c | None \<Rightarrow> False) classes
          in
          if length classes < MIN_INDEPENDENT_CLASSES then Insufficient (length classes) peer_only
          else if peer_only \<and> length classes < PEER_ONLY_MIN_CLASSES then Insufficient (length classes) True
          else
            let scope = scope_of_ip ip in
            if scope \<noteq> GlobalUnicast then NotGlobal ip scope
            else Established ip (length classes))"

text \<open>The loop of \<open>establish\<close> pushes every reading to the bucket of its folded family.\<close>

fun bucket_readings ::
  "reading list \<Rightarrow> (ip_addr \<times> string) list \<Rightarrow> (ip_addr \<times> string) list
   \<Rightarrow> (ip_addr \<times> string) list \<times> (ip_addr \<times> string) list" where
  "bucket_readings [] v4 v6 = (v4, v6)"
| "bucket_readings (r # rs) v4 v6 =
     (let folded = fold_ip (sock_ip (addr r)) in
      case folded of
        IpV4 _ \<Rightarrow> bucket_readings rs (v4 @ [(folded, source r)]) v6
      | IpV6 _ \<Rightarrow> bucket_readings rs v4 (v6 @ [(folded, source r)]))"

definition establish :: "reading list \<Rightarrow> established" where
  "establish readings =
     (let (v4, v6) = bucket_readings readings [] []
      in \<lparr>ipv6 = verdict_for_family v6, ipv4 = verdict_for_family v4\<rparr>)"

definition ipv6_addr :: "established \<Rightarrow> ipv6_addr option" where
  "ipv6_addr e = (case ipv6 e of Established (IpV6 v6) _ \<Rightarrow> Some v6 | _ \<Rightarrow> None)"

definition ipv4_addr :: "established \<Rightarrow> ipv4_addr option" where
  "ipv4_addr e = (case ipv4 e of Established (IpV4 v4) _ \<Rightarrow> Some v4 | _ \<Rightarrow> None)"

section \<open>Numerals\<close>

lemma of_char_from_digit: "d < 36 \<Longrightarrow> (of_char (from_digit d) :: nat) = (if d < 10 then 48 + d else 87 + d)"
  by (simp add: from_digit_def)

lemma to_digit_from_digit [simp]: "d < radix \<Longrightarrow> radix \<le> 36 \<Longrightarrow> to_digit radix (from_digit d) = Some d"
  by (simp add: to_digit_def of_char_from_digit Let_def)

lemma digits_value_append:
  "digits_value radix bound acc (xs @ ys) =
     (case digits_value radix bound acc xs of None \<Rightarrow> None | Some n \<Rightarrow> digits_value radix bound n ys)"
  by (induction xs arbitrary: acc) (auto simp: Let_def split: option.split)

lemma digits_value_show_dec: "n < bound \<Longrightarrow> digits_value 10 bound 0 (show_dec n) = Some n"
proof (induction n rule: show_dec.induct)
  case (1 n)
  show ?case
  proof (cases "n < 10")
    case True
    with 1 show ?thesis by (subst show_dec.simps) simp
  next
    case False
    with 1 have "digits_value 10 bound 0 (show_dec (n div 10)) = Some (n div 10)" by simp
    with False 1 show ?thesis by (subst show_dec.simps) (simp add: digits_value_append Let_def)
  qed
qed

definition is_digit_char :: "char \<Rightarrow> bool" where
  "is_digit_char c \<longleftrightarrow> c \<in> from_digit ` {..<36}"

lemma is_digit_char_from [simp]: "d < 36 \<Longrightarrow> is_digit_char (from_digit d)"
  by (simp add: is_digit_char_def)

lemma separators_not_digits [simp]:
  "\<not> is_digit_char CHR ''+''" "\<not> is_digit_char CHR ''-''" "\<not> is_digit_char CHR ''.''" "\<not> is_digit_char CHR '':''"
proof -
  have "is_digit_char c \<Longrightarrow> of_char c \<ge> (48::nat) \<and> of_char c \<noteq> (58::nat)" for c
    by (auto simp: is_digit_char_def of_char_from_digit split: if_splits)
  from this [of "CHR ''+''"] this [of "CHR ''-''"] this [of "CHR ''.''"] this [of "CHR '':''"]
  show "\<not> is_digit_char CHR ''+''" "\<not> is_digit_char CHR ''-''" "\<not> is_digit_char CHR ''.''"
      "\<not> is_digit_char CHR '':''"
    by auto
qed

lemma show_dec_digits: "list_all is_digit_char (show_dec n)"
proof (induction n rule: show_dec.induct)
  case (1 n)
  show ?case
    using 1 by (subst show_dec.simps) simp
qed

lemma show_dec_nonempty [simp]: "show_dec n \<noteq> []"
  by (subst show_dec.simps) simp

lemma show_hex4_digits: "list_all is_digit_char (show_hex4 n)"
proof -
  have "k mod 16 < 36" for k :: nat
    using mod_less_divisor [of 16 k] by linarith
  then show ?thesis by (simp add: show_hex4_def)
qed

lemma digits_not_mem: "list_all is_digit_char s \<Longrightarrow> \<not> is_digit_char c \<Longrightarrow> c \<notin> set s"
  by (auto simp: list_all_iff)

lemma uint_from_str_digits:
  "s \<noteq> [] \<Longrightarrow> list_all is_digit_char s \<Longrightarrow> uint_from_str radix bound s = digits_value radix bound 0 s"
  by (cases s) (auto simp: uint_from_str_def)

lemma uint_from_str_show_dec: "n < bound \<Longrightarrow> uint_from_str 10 bound (show_dec n) = Some n"
  by (simp add: uint_from_str_digits show_dec_digits digits_value_show_dec)

lemma digits_value_show_hex4: "n < 65536 \<Longrightarrow> digits_value 16 65536 0 (show_hex4 n) = Some n"
proof -
  assume n: "n < 65536"
  have q: "n div 256 = n div 16 div 16" "n div 4096 = n div 16 div 16 div 16"
    by (simp_all add: div_mult2_eq [symmetric])
  have top: "n div 16 div 16 div 16 mod 16 = n div 16 div 16 div 16"
    using n by (simp add: div_mult2_eq [symmetric] less_mult_imp_div_less)
  show ?thesis
    using n by (simp add: show_hex4_def q top Let_def less_mult_imp_div_less del: div_mult2_eq)
qed

lemma parse_show [simp]:
  "parse_u8 (show_dec (unat a)) = Some a"
  "parse_u16 (show_dec (unat p)) = Some p"
  "parse_hex_u16 (show_hex4 (unat h)) = Some h"
proof -
  have "unat a < 256" "unat p < 65536" and h: "unat h < 65536"
    using unsigned_less [where 'a = nat, of a] unsigned_less [where 'a = nat, of p]
      unsigned_less [where 'a = nat, of h] by simp_all
  then show "parse_u8 (show_dec (unat a)) = Some a" "parse_u16 (show_dec (unat p)) = Some p"
    by (simp_all add: parse_u8_def parse_u16_def uint_from_str_show_dec)
  have "show_hex4 (unat h) \<noteq> []" by (simp add: show_hex4_def)
  then have "uint_from_str 16 65536 (show_hex4 (unat h)) = Some (unat h)"
    by (simp add: uint_from_str_digits show_hex4_digits digits_value_show_hex4 h)
  then show "parse_hex_u16 (show_hex4 (unat h)) = Some h"
    by (simp add: parse_hex_u16_def)
qed

lemma split_once_append: "sep \<notin> set xs \<Longrightarrow> split_once sep (xs @ sep # ys) = Some (xs, ys)"
  by (induction xs) auto

lemma rsplit_once_append: "sep \<notin> set ys \<Longrightarrow> rsplit_once sep (xs @ sep # ys) = Some (xs, ys)"
  by (simp add: rsplit_once_def split_once_append)

lemma show_no_separator [simp]:
  "CHR ''.'' \<notin> set (show_dec n)" "CHR '':'' \<notin> set (show_dec n)" "CHR '':'' \<notin> set (show_hex4 n)"
  by (simp_all add: digits_not_mem show_dec_digits show_hex4_digits)

lemma parse_render: "source_class_parse (render c) = Some c"
  by (cases c) (simp_all add: source_class_parse_def split_once_append rsplit_once_append)

interpretation class_codec: partial_codec render source_class_parse "\<lambda>_. True"
  by unfold_locales (simp add: parse_render)

section \<open>The verdict as a function of a set of readings\<close>

definition is_peer_label :: "string \<Rightarrow> bool" where
  "is_peer_label s \<longleftrightarrow> (case source_class_parse s of Some c \<Rightarrow> is_peer c | None \<Rightarrow> False)"

text \<open>SPEC.md section 7.3, over the set of (folded address, class) pairs of one family.\<close>

definition verdict_spec :: "(ip_addr \<times> string) set \<Rightarrow> family_verdict" where
  "verdict_spec R =
     (let ips = fst ` R; classes = snd ` R; n = card classes; peers = (\<forall>s \<in> classes. is_peer_label s)
      in if R = {} then NoReadings
         else if 1 < card ips then Disagreement (sorted_list_of_set ips)
         else if n < 2 \<or> peers \<and> n < 3 then Insufficient n peers
         else if scope_of_ip (the_elem ips) \<noteq> GlobalUnicast
              then NotGlobal (the_elem ips) (scope_of_ip (the_elem ips))
         else Established (the_elem ips) n)"

fun is_v4 :: "ip_addr \<Rightarrow> bool" where
  "is_v4 (IpV4 _) \<longleftrightarrow> True"
| "is_v4 (IpV6 _) \<longleftrightarrow> False"

definition claim_of :: "reading \<Rightarrow> ip_addr \<times> string" where
  "claim_of r = (fold_ip (sock_ip (addr r)), source r)"

definition family_claims :: "bool \<Rightarrow> reading list \<Rightarrow> (ip_addr \<times> string) set" where
  "family_claims v4 rs = {c \<in> claim_of ` set rs. is_v4 (fst c) = v4}"

definition verdict :: "bool \<Rightarrow> reading list \<Rightarrow> family_verdict" where
  "verdict v4 rs = (if v4 then ipv4 (establish rs) else ipv6 (establish rs))"

lemma sorted_distinct_adj: "sorted xs \<Longrightarrow> distinct_adj xs \<Longrightarrow> distinct xs"
proof (induction xs rule: induct_list012)
  case (3 x y zs)
  then have "x < y" "\<forall>z \<in> set zs. y \<le> z" "distinct (y # zs)" by auto
  then show ?case by force
qed auto

lemma remdups_adj_sort: "remdups_adj (sort xs) = sorted_list_of_set (set xs)"
  by (rule sorted_distinct_set_unique)
    (simp_all add: sorted_distinct_adj)

lemma the_elem_image:
  assumes "finite A" and "A \<noteq> {}" and "card A \<le> 1"
  shows "sorted_list_of_set A = [the_elem A] \<and> A = {the_elem A}"
proof -
  have "card A = 1" using assms card_gt_0_iff [of A] by linarith
  then show ?thesis by (auto simp: card_1_singleton_iff)
qed

lemma verdict_for_family_eq: "verdict_for_family rs = verdict_spec (set rs)"
proof (cases "rs = [] \<or> 1 < card (fst ` set rs)")
  case True
  then show ?thesis
    by (auto simp: verdict_for_family_def verdict_spec_def remdups_adj_sort Let_def)
next
  case False
  then have "sorted_list_of_set (fst ` set rs) = [the_elem (fst ` set rs)]"
    using the_elem_image [of "fst ` set rs"] by auto
  with False show ?thesis
    by (simp add: verdict_for_family_def verdict_spec_def remdups_adj_sort Let_def list_all_iff
        is_peer_label_def [symmetric] MIN_INDEPENDENT_CLASSES_def PEER_ONLY_MIN_CLASSES_def)
qed

lemma bucket_readings_eq:
  "bucket_readings rs v4 v6 =
     (v4 @ filter (\<lambda>c. is_v4 (fst c)) (map claim_of rs), v6 @ filter (\<lambda>c. \<not> is_v4 (fst c)) (map claim_of rs))"
  by (induction rs arbitrary: v4 v6) (auto simp: claim_of_def Let_def split: ip_addr.split)

lemma verdict_eq: "verdict v4 rs = verdict_spec (family_claims v4 rs)"
proof -
  have "family_claims v4 rs = set (filter (\<lambda>c. is_v4 (fst c) = v4) (map claim_of rs))"
    by (auto simp: family_claims_def)
  then show ?thesis
    by (cases v4) (simp_all add: verdict_def establish_def bucket_readings_eq verdict_for_family_eq)
qed

lemma finite_claims [simp]: "finite (family_claims v4 rs)"
  by (simp add: family_claims_def)

lemma spec_established:
  assumes "finite R"
  shows "verdict_spec R = Established ip n \<longleftrightarrow>
    fst ` R = {ip} \<and> n = card (snd ` R) \<and> 2 \<le> n \<and> ((\<forall>s \<in> snd ` R. is_peer_label s) \<longrightarrow> 3 \<le> n)
    \<and> scope_of_ip ip = GlobalUnicast"
proof (cases "R = {} \<or> 1 < card (fst ` R)")
  case True
  then show ?thesis by (auto simp: verdict_spec_def Let_def)
next
  case False
  then have "fst ` R = {the_elem (fst ` R)}"
    using the_elem_image [of "fst ` R"] assms by auto
  then obtain a where "fst ` R = {a}" by blast
  with False show ?thesis by (auto simp: verdict_spec_def Let_def)
qed

section \<open>Properties\<close>

text \<open>C32: the label grammar round-trips. Parsing the rendering of any class, with any host, port or
  prefix, gives back the class; so two classes render alike only when they are equal.\<close>
theorem class_render_roundtrip:
  "source_class_parse (render c) = Some c \<and> (render c = render c' \<longleftrightarrow> c = c')"
  using class_codec.enc_eq_iff [of c c'] by (simp add: parse_render)

text \<open>C30: the verdict is the specified one. For each family, \<open>establish\<close> computes the ladder of
  SPEC.md section 7.3 over the set of (folded address, class) pairs of that family, with numbers of
  distinct addresses and of distinct classes; the sort and the adjacent deduplication of the code
  lose and duplicate nothing.\<close>
theorem establish_refines_spec: "verdict v4 rs = verdict_spec (family_claims v4 rs)"
  by (rule verdict_eq)

lemma established_conv:
  "verdict v4 rs = Established ip n \<longleftrightarrow>
     (\<exists>r \<in> set rs. fold_ip (sock_ip (addr r)) = ip) \<and> is_v4 ip = v4
     \<and> (\<forall>r \<in> set rs. is_v4 (fold_ip (sock_ip (addr r))) = v4 \<longrightarrow> fold_ip (sock_ip (addr r)) = ip)
     \<and> n = card {source r | r. r \<in> set rs \<and> fold_ip (sock_ip (addr r)) = ip}
     \<and> 2 \<le> n
     \<and> ((\<forall>r \<in> set rs. fold_ip (sock_ip (addr r)) = ip \<longrightarrow> is_peer_label (source r)) \<longrightarrow> 3 \<le> n)
     \<and> scope_of_ip ip = GlobalUnicast"
proof -
  let ?R = "family_claims v4 rs"
  have R: "?R = {(fold_ip (sock_ip (addr r)), source r) | r. r \<in> set rs \<and> is_v4 (fold_ip (sock_ip (addr r))) = v4}"
    by (auto simp: family_claims_def claim_of_def)
  have mem: "i \<in> fst ` ?R \<longleftrightarrow> (\<exists>r \<in> set rs. fold_ip (sock_ip (addr r)) = i) \<and> is_v4 i = v4" for i
    unfolding R by (auto simp: image_def)
  have all: "(\<forall>i \<in> fst ` ?R. i = ip) \<longleftrightarrow>
      (\<forall>r \<in> set rs. is_v4 (fold_ip (sock_ip (addr r))) = v4 \<longrightarrow> fold_ip (sock_ip (addr r)) = ip)"
    unfolding R by (auto simp: image_def)
  have "A = {x} \<longleftrightarrow> x \<in> A \<and> (\<forall>i \<in> A. i = x)" for A and x :: ip_addr by blast
  then have one: "fst ` ?R = {ip} \<longleftrightarrow> ((\<exists>r \<in> set rs. fold_ip (sock_ip (addr r)) = ip) \<and> is_v4 ip = v4)
      \<and> (\<forall>r \<in> set rs. is_v4 (fold_ip (sock_ip (addr r))) = v4 \<longrightarrow> fold_ip (sock_ip (addr r)) = ip)"
    by (simp only: mem [of ip] all)
  have snd: "snd ` ?R = {source r | r. r \<in> set rs \<and> is_v4 (fold_ip (sock_ip (addr r))) = v4}"
    unfolding R by (auto simp: image_def)
  have src: "snd ` ?R = {source r | r. r \<in> set rs \<and> fold_ip (sock_ip (addr r)) = ip}" if fst: "fst ` ?R = {ip}"
  proof -
    have "r \<in> set rs \<and> is_v4 (fold_ip (sock_ip (addr r))) = v4 \<longleftrightarrow> r \<in> set rs \<and> fold_ip (sock_ip (addr r)) = ip" for r
      using fst unfolding one by blast
    then show ?thesis unfolding snd by simp
  qed
  have peers: "(\<forall>s \<in> snd ` ?R. is_peer_label s) \<longleftrightarrow>
      (\<forall>r \<in> set rs. fold_ip (sock_ip (addr r)) = ip \<longrightarrow> is_peer_label (source r))" if "fst ` ?R = {ip}"
    unfolding src [OF that] by auto
  note v = verdict_eq [of v4 rs] spec_established [OF finite_claims, of v4 rs ip n]
  show ?thesis
  proof (cases "fst ` ?R = {ip}")
    case True
    note t = True [unfolded one]
    from t have t1: "\<exists>r \<in> set rs. fold_ip (sock_ip (addr r)) = ip" and t2: "is_v4 ip = v4" and
      t3: "\<forall>r \<in> set rs. is_v4 (fold_ip (sock_ip (addr r))) = v4 \<longrightarrow> fold_ip (sock_ip (addr r)) = ip"
      by blast+
    show ?thesis unfolding v src [OF True] peers [OF True] using True t1 t2 t3 by blast
  next
    case False
    then show ?thesis unfolding v using one by blast
  qed
qed

lemma sources_filter: "{f r | r. r \<in> set rs \<and> P r} = set (map f (filter P rs))"
  by auto

text \<open>C5: when an address is established, exactly. An address is established from a family's readings
  with \<open>n\<close> classes if and only if every reading of the family folds to it, \<open>n\<close> distinct classes
  reported it, \<open>n\<close> is at least two, at least three if every class is a peer class, and the address is
  globally routable. One dissenter, one source or a private address is enough to establish nothing.\<close>
theorem established_iff:
  "verdict v4 rs = Established ip n \<longleftrightarrow>
     (\<exists>r \<in> set rs. fold_ip (sock_ip (addr r)) = ip) \<and> is_v4 ip = v4
     \<and> (\<forall>r \<in> set rs. is_v4 (fold_ip (sock_ip (addr r))) = v4 \<longrightarrow> fold_ip (sock_ip (addr r)) = ip)
     \<and> n = card {source r | r. r \<in> set rs \<and> fold_ip (sock_ip (addr r)) = ip}
     \<and> 2 \<le> n
     \<and> ((\<forall>r \<in> set rs. fold_ip (sock_ip (addr r)) = ip \<longrightarrow> is_peer_label (source r)) \<longrightarrow> 3 \<le> n)
     \<and> scope_of_ip ip = GlobalUnicast"
  by (rule established_conv)

theorem established_iff_witness:
  "verdict True [reading_new ''public:a'' (SockV4 (Ipv4 8 8 8 8) 1),
                 reading_new (render (peer (IpV4 (Ipv4 9 9 9 9)))) (SockV4 (Ipv4 8 8 8 8) 2)]
   = Established (IpV4 (Ipv4 8 8 8 8)) 2"
proof -
  have "\<not> is_peer_label ''public:a''" "scope_of_ip (IpV4 (Ipv4 8 8 8 8)) = GlobalUnicast"
      "''public:a'' \<noteq> render (peer (IpV4 (Ipv4 9 9 9 9)))"
    by code_simp+
  then show ?thesis
    by (subst established_iff, subst sources_filter) (simp add: reading_new_def)
qed

text \<open>Only the set of claims matters. Two lists of readings with the same pairs of folded address
  and class give the same result: order, repetition, ports, witnesses, flow information and the
  IPv4-in-IPv6 form of an address are never consulted, so a source cannot add weight by repeating
  itself.\<close>
theorem establish_depends_on_claims:
  assumes "claim_of ` set rs = claim_of ` set rs'"
  shows "establish rs = establish rs'"
proof -
  have "verdict v4 rs = verdict v4 rs'" for v4
    using assms by (simp add: verdict_eq family_claims_def)
  from this [of True] this [of False] show ?thesis
    by (simp add: verdict_def)
qed

theorem establish_depends_on_claims_witness:
  "establish [reading_new ''public:a'' (SockV4 (Ipv4 8 8 8 8) 1),
              with_witness (reading_new ''public:a'' (SockV6 (Ipv6 0 0 0 0 0 0xffff 0x808 0x808) 2 3 4)) ''w'']
   = establish [reading_new ''public:a'' (SockV4 (Ipv4 8 8 8 8) 9)]"
  by (rule establish_depends_on_claims)
    (simp add: claim_of_def reading_new_def with_witness_def)

text \<open>The peer partition. Two transport addresses give the same class exactly when they fold to
  the same family and share the first two octets (IPv4, a /16) or the first two groups (IPv6, a
  /32); so a mapped or compatible IPv6 peer shares the class of its plain IPv4 twin.\<close>
theorem peer_class_prefix:
  "peer x = peer y \<longleftrightarrow>
     (case (fold_ip x, fold_ip y) of
        (IpV4 a, IpV4 b) \<Rightarrow> take 2 (octets4 a) = take 2 (octets4 b)
      | (IpV6 a, IpV6 b) \<Rightarrow> take 2 (segments a) = take 2 (segments b)
      | _ \<Rightarrow> False)"
  by (auto simp: peer_def split: ip_addr.split ipv4_addr.split ipv6_addr.split)

lemma is_peer_label_peer [simp]: "is_peer_label (render (peer ip))"
  by (auto simp: is_peer_label_def parse_render peer_def split: ip_addr.split ipv4_addr.split ipv6_addr.split)

text \<open>C31: Sybil resistance. When only peers answer, and they come from at most two classes (two /16s
  or /32s), nothing is established, however many they are and whatever they claim.\<close>
theorem two_prefixes_never_establish:
  assumes "\<forall>r \<in> set rs. \<exists>ip \<in> set ips. source r = render (peer ip)" and "card (peer ` set ips) \<le> 2"
  shows "verdict v4 rs \<noteq> Established ip n"
proof
  assume est: "verdict v4 rs = Established ip n"
  let ?C = "{source r | r. r \<in> set rs \<and> fold_ip (sock_ip (addr r)) = ip}"
  have "?C \<subseteq> render ` peer ` set ips" using assms(1) by auto
  then have "card ?C \<le> card (render ` peer ` set ips)" by (intro card_mono) auto
  also have "\<dots> \<le> 2" using class_codec.card_enc_image [of "peer ` set ips"] assms(2) by simp
  finally have "card ?C \<le> 2" .
  moreover have "\<forall>r \<in> set rs. is_peer_label (source r)" using assms(1) by force
  ultimately show False using est unfolding established_conv by auto
qed

theorem two_prefixes_never_establish_witness:
  "verdict True [reading_new (render (peer (IpV4 (Ipv4 8 8 8 8)))) (SockV4 (Ipv4 9 9 9 9) 1),
                 reading_new (render (peer (IpV4 (Ipv4 8 8 4 4)))) (SockV4 (Ipv4 9 9 9 9) 1)]
   \<noteq> Established (IpV4 (Ipv4 9 9 9 9)) 2"
  by (rule two_prefixes_never_establish [where ips = "[IpV4 (Ipv4 8 8 8 8), IpV4 (Ipv4 8 8 4 4)]"])
    (simp_all add: reading_new_def card_insert_if peer_def)

text \<open>The accessors lose nothing. Each gives an address exactly when its family's verdict is
  \<open>Established\<close>, and that address (the wildcard arm never hides an established one, since a verdict
  carries an address of its own family).\<close>
theorem accessors_exact:
  "(ipv4_addr (establish rs) = Some a \<longleftrightarrow> (\<exists>n. verdict True rs = Established (IpV4 a) n))
   \<and> (ipv6_addr (establish rs) = Some b \<longleftrightarrow> (\<exists>n. verdict False rs = Established (IpV6 b) n))
   \<and> (ipv4_addr (establish rs) = None \<longleftrightarrow> (\<nexists>ip n. verdict True rs = Established ip n))
   \<and> (ipv6_addr (establish rs) = None \<longleftrightarrow> (\<nexists>ip n. verdict False rs = Established ip n))"
proof -
  have "is_v4 ip = v4" if "verdict v4 rs = Established ip n" for v4 ip n
    using that unfolding established_conv by blast
  from this [of True] this [of False] show ?thesis
    by (auto simp: verdict_def ipv4_addr_def ipv6_addr_def split: family_verdict.splits ip_addr.splits)
qed

text \<open>The parser accepts strings no class renders to. The doc comment of \<open>SourceClass::parse\<close>
  says it gives \<open>None\<close> for anything but the rendered forms; it accepts a leading \<open>+\<close> and leading
  zeros, and three spellings of one peer class then count as three independent classes.\<close>
theorem parse_accepts_unrendered:
  "source_class_parse ''peer:v4:+8.08'' = Some (PeerV4 8 8) \<and> render c \<noteq> ''peer:v4:+8.08''
   \<and> verdict True (map (\<lambda>s. reading_new s (SockV4 (Ipv4 9 9 9 9) 1)) [''peer:v4:8.8'', ''peer:v4:+8.8'', ''peer:v4:08.8''])
     = Established (IpV4 (Ipv4 9 9 9 9)) 3"
proof -
  have p: "source_class_parse ''peer:v4:+8.08'' = Some (PeerV4 8 8)"
    by (simp add: source_class_parse_def parse_u8_def uint_from_str_def to_digit_def)
  have "render c \<noteq> ''peer:v4:+8.08''"
  proof
    assume r: "render c = ''peer:v4:+8.08''"
    with p have "c = PeerV4 8 8" using parse_render [of c] by simp
    with r show False by (simp add: show_dec.simps)
  qed
  moreover have "verdict True (map (\<lambda>s. reading_new s (SockV4 (Ipv4 9 9 9 9) 1)) [''peer:v4:8.8'', ''peer:v4:+8.8'', ''peer:v4:08.8''])
     = Established (IpV4 (Ipv4 9 9 9 9)) 3"
    by (simp add: verdict_def establish_def bucket_readings_eq claim_of_def reading_new_def
        verdict_for_family_eq verdict_spec_def scope_of_ip_def)
  ultimately show ?thesis using p by simp
qed

end
