(* ===== verification/Agreement.thy ===== *)
theory Agreement
  imports Establish Observe
begin

text \<open>
  Observation and agreement together: peers answer through \<open>observe\<close> (\<open>src/observe.rs\<close>), the node
  collects their answers as readings under the class of each peer and settles them with \<open>establish\<close>
  (\<open>src/establish.rs\<close>). What honest peers achieve, and what lying ones cannot.
\<close>

section \<open>The shape of a verdict\<close>

text \<open>What a consumer matching on a verdict of a family may rely on. \<open>R\<close> are the (folded address,
  class) pairs of the readings of the family.\<close>

fun well_formed :: "bool \<Rightarrow> (ip_addr \<times> string) set \<Rightarrow> family_verdict \<Rightarrow> bool" where
  "well_formed v4 R NoReadings \<longleftrightarrow> R = {}"
| "well_formed v4 R (Disagreement addrs) \<longleftrightarrow>
     sorted addrs \<and> distinct addrs \<and> 2 \<le> length addrs \<and> set addrs = fst ` R \<and> (\<forall>ip \<in> set addrs. is_v4 ip = v4)"
| "well_formed v4 R (Insufficient n peer_only) \<longleftrightarrow>
     n = card (snd ` R) \<and> 1 \<le> n \<and> (n = 1 \<or> n = 2 \<and> peer_only) \<and> (peer_only \<longleftrightarrow> (\<forall>s \<in> snd ` R. is_peer_label s))"
| "well_formed v4 R (NotGlobal ip sc) \<longleftrightarrow>
     fst ` R = {ip} \<and> is_v4 ip = v4 \<and> fold_ip ip = ip \<and> sc = scope_of_ip ip \<and> sc \<noteq> GlobalUnicast"
| "well_formed v4 R (Established ip n) \<longleftrightarrow>
     fst ` R = {ip} \<and> is_v4 ip = v4 \<and> fold_ip ip = ip \<and> n = card (snd ` R) \<and> 2 \<le> n \<and> scope_of_ip ip = GlobalUnicast"

lemma family_claims_facts:
  "ip \<in> fst ` family_claims v4 rs \<Longrightarrow> is_v4 ip = v4 \<and> fold_ip ip = ip"
  by (auto simp: family_claims_def claim_of_def)

lemma spec_well_formed:
  assumes "finite R" and family: "\<And>ip. ip \<in> fst ` R \<Longrightarrow> is_v4 ip = v4 \<and> fold_ip ip = ip"
  shows "well_formed v4 R (verdict_spec R)"
proof (cases "R = {} \<or> 1 < card (fst ` R)")
  case True
  then show ?thesis using assms by (auto simp: verdict_spec_def Let_def)
next
  case False
  then obtain ip where ip: "fst ` R = {ip}"
    using the_elem_image [of "fst ` R"] assms(1) by auto
  have "0 < card (snd ` R)" using False assms(1) by (simp add: card_gt_0_iff)
  moreover have "is_v4 ip = v4 \<and> fold_ip ip = ip" using family ip by blast
  ultimately show ?thesis using False ip by (auto simp: verdict_spec_def Let_def)
qed

section \<open>Observed by peers\<close>

text \<open>The reading a node takes from the answer of the peer at \<open>p\<close> to which it has session \<open>m\<close>.\<close>

definition peer_reading :: "ip_addr \<times> session_meta \<Rightarrow> reading option" where
  "peer_reading pm =
     (case pm of (p, m) \<Rightarrow>
        (case observe m of Inr a \<Rightarrow> Some (reading_new (render (peer p)) a) | Inl _ \<Rightarrow> None))"

text \<open>A peer that sees the node, inbound and direct, at \<open>ip\<close> (from any port but 0, in either IPv6 form).\<close>

definition sees :: "ip_addr \<Rightarrow> session_meta \<Rightarrow> bool" where
  "sees ip m \<longleftrightarrow> meta_direction m = Inbound \<and> meta_path m = Direct \<and> fold_ip (sock_ip (meta_remote m)) = fold_ip ip
     \<and> sock_port (meta_remote m) \<noteq> 0"

lemma peer_reading_sees:
  assumes "sees ip m" and "scope_of_ip ip \<noteq> NeverDialable"
  shows "\<exists>a. peer_reading (p, m) = Some (reading_new (render (peer p)) a) \<and> fold_ip (sock_ip a) = fold_ip ip"
proof -
  have "scope_of (meta_remote m) = scope_of_ip ip"
    using assms(1) by (simp add: sees_def scope_of_def scope_of_ip_def)
  then show ?thesis using assms by (auto simp: peer_reading_def observe_def sees_def)
qed

section \<open>Properties\<close>

text \<open>C29: the type of a verdict. For every list of readings, the verdict of a family is \<open>NoReadings\<close> only
  without readings; a \<open>Disagreement\<close> lists two or more addresses, all of the family, each claimed,
  sorted and without duplicates; \<open>Insufficient\<close> counts one class, or two when all are peers; and
  \<open>NotGlobal\<close> and \<open>Established\<close> carry the one claimed address, folded, of this family, with its scope or
  a count of at least two.\<close>
theorem verdict_well_formed: "well_formed v4 (family_claims v4 rs) (verdict v4 rs)"
  unfolding verdict_eq by (rule spec_well_formed [OF finite_claims family_claims_facts])

text \<open>C13: honest peers settle the address, and one is enough to stop a lie. Let the node sit at a globally routable
  \<open>ip\<close>. Three or more peers of different classes that see it there establish exactly that address,
  with the number of their classes, whatever ports and IPv6 forms they saw. And whatever any other
  parties report, under whatever labels, the reading of a single such peer keeps every other address of
  that family from being established.\<close>
theorem honest_peers_settle:
  assumes "scope_of_ip ip = GlobalUnicast" and "\<forall>(p, m) \<in> set peers. sees ip m" and "peers \<noteq> []"
  defines "readings \<equiv> List.map_filter peer_reading peers" and "classes \<equiv> peer ` fst ` set peers"
  shows "(3 \<le> card classes \<longrightarrow>
      verdict (is_v4 (fold_ip ip)) readings = Established (fold_ip ip) (card classes))
    \<and> (set readings \<subseteq> set all \<longrightarrow> verdict (is_v4 (fold_ip ip)) all = Established other n \<longrightarrow> other = fold_ip ip)"
proof -
  have dial: "scope_of_ip ip \<noteq> NeverDialable" using assms(1) by simp
  have reading: "\<exists>a. peer_reading pm = Some (reading_new (render (peer (fst pm))) a) \<and> fold_ip (sock_ip a) = fold_ip ip"
    if "pm \<in> set peers" for pm
    using peer_reading_sees [OF _ dial, of "snd pm" "fst pm"] assms(2) that by (cases pm) auto
  have set: "set readings = {r. \<exists>pm \<in> set peers. peer_reading pm = Some r}"
    by (force simp: readings_def List.map_filter_def)
  have addr: "fold_ip (sock_ip (addr r)) = fold_ip ip" if "r \<in> set readings" for r
    using that reading by (force simp: set reading_new_def)
  have sources: "source ` set readings = render ` classes"
  proof
    show "source ` set readings \<subseteq> render ` classes"
      using reading by (force simp: set classes_def reading_new_def)
    show "render ` classes \<subseteq> source ` set readings"
      using reading by (force simp: set classes_def reading_new_def image_iff)
  qed
  obtain r where r: "r \<in> set readings" using assms(3) reading by (cases peers) (force simp: set)+
  have "{source r | r. r \<in> set readings \<and> fold_ip (sock_ip (addr r)) = fold_ip ip} = render ` classes"
    unfolding sources [symmetric] using addr by auto
  moreover have "card (render ` classes) = card classes" by (simp add: class_codec.card_enc_image)
  moreover have "scope_of_ip (fold_ip ip) = GlobalUnicast" using assms(1) by (simp add: scope_of_ip_def)
  ultimately have "verdict (is_v4 (fold_ip ip)) readings = Established (fold_ip ip) (card classes)" if "3 \<le> card classes"
    unfolding established_conv using addr r that by auto
  moreover have "other = fold_ip ip"
    if "set readings \<subseteq> set all" and "verdict (is_v4 (fold_ip ip)) all = Established other n"
  proof -
    have "\<forall>q \<in> set all. is_v4 (fold_ip (sock_ip (reading.addr q))) = is_v4 (fold_ip ip)
        \<longrightarrow> fold_ip (sock_ip (reading.addr q)) = other"
      using that(2) unfolding established_conv by (elim conjE)
    then show ?thesis using that(1) r addr [OF r] by force
  qed
  ultimately show ?thesis by blast
qed

abbreviation example_session :: "u16 \<Rightarrow> session_meta" where
  "example_session port \<equiv> session_meta_new Inbound Direct (SockV4 (Ipv4 8 8 8 8) port)"

theorem honest_peers_settle_witness:
  "verdict True (List.map_filter peer_reading
     [(IpV4 (Ipv4 1 1 1 1), example_session 7), (IpV4 (Ipv4 2 2 2 2), example_session 8),
      (IpV4 (Ipv4 3 3 3 3), session_meta_new Inbound Direct (SockV6 (Ipv6 0 0 0 0 0 0xffff 0x808 0x808) 9 0 0))])
   = Established (IpV4 (Ipv4 8 8 8 8)) 3"
proof -
  have "scope_of_ip (IpV4 (Ipv4 8 8 8 8)) = GlobalUnicast" by code_simp
  from conjunct1 [OF honest_peers_settle [OF this, of
      "[(IpV4 (Ipv4 1 1 1 1), example_session 7), (IpV4 (Ipv4 2 2 2 2), example_session 8),
        (IpV4 (Ipv4 3 3 3 3), session_meta_new Inbound Direct (SockV6 (Ipv6 0 0 0 0 0 0xffff 0x808 0x808) 9 0 0))]"]]
  show ?thesis
    by (simp add: sees_def session_meta_new_def peer_def card_insert_if)
qed

end
