(* ===== verification/DualStack.thy ===== *)
theory DualStack
  imports LimitedServer Agreement
begin

text \<open>
  One host, two spellings. A dual-stack socket shows an IPv4 peer as an IPv4-mapped IPv6 address, and
  which of the two a server or peer sees depends on how its listener was bound; SPEC.md section 5.3
  has an address folded before it is classified, announced, counted or bound to a nonce. Each part that takes
  an endpoint for that is shown to look at nothing else. The two clients do not fold: SPEC.md section 2.4 has them
  compare the sender with the server they were given, exactly.
\<close>

section \<open>Endpoints\<close>

definition same_endpoint :: "socket_addr \<Rightarrow> socket_addr \<Rightarrow> bool" where
  "same_endpoint s s' \<longleftrightarrow> fold_ip (sock_ip s) = fold_ip (sock_ip s') \<and> sock_port s = sock_port s'"

named_theorems transparent "what one component makes of two spellings of an endpoint"

lemma scope_of_transparent [transparent]: "same_endpoint s s' \<Longrightarrow> scope_of s = scope_of s'"
  by (simp add: same_endpoint_def scope_of_def scope_of_ip_def)

lemma encode_success_transparent [transparent]:
  "same_endpoint s s' \<Longrightarrow> encode_binding_success t s = encode_binding_success t s'"
  by (simp add: same_endpoint_def encode_success_header)

lemma observe_transparent [transparent]:
  "same_endpoint s s' \<Longrightarrow> observe (session_meta_new dir path s) = observe (session_meta_new dir path s')"
  using scope_of_transparent [of s s'] by (simp add: observe_def session_meta_new_def same_endpoint_def)

lemma allow_transparent [transparent]:
  "same_endpoint s s' \<Longrightarrow> allow ords lim session (sock_ip s) now = allow ords lim session (sock_ip s') now"
  by (simp add: same_endpoint_def allow_def)

lemma peer_transparent [transparent]: "same_endpoint s s' \<Longrightarrow> peer (sock_ip s) = peer (sock_ip s')"
  by (simp add: same_endpoint_def peer_def)

lemma nonce_message_transparent: "same_endpoint s s' \<Longrightarrow> nonce_message b s = nonce_message b s'"
  by (simp add: same_endpoint_def nonce_message_inject)

lemma issue_transparent [transparent]: "same_endpoint s s' \<Longrightarrow> issue hmac issuer s now = issue hmac issuer s' now"
  by (simp add: issue_def tag_for_def nonce_message_transparent)

lemma check_nonce_transparent [transparent]:
  assumes "same_endpoint s s'"
  shows "check_nonce hmac issuer v s now = check_nonce hmac issuer v s' now"
  unfolding check_nonce_def tag_for_def nonce_message_transparent [OF assms] ..

lemma server_work_transparent:
  assumes "same_endpoint s s'"
  shows "server_work hmac ecdsa issuer mode s now d = server_work hmac ecdsa issuer mode s' now d"
  unfolding server_work_def carry_out_def check_nonce_transparent [OF assms] issue_transparent [OF assms]
    encode_success_transparent [OF assms] ..

lemma server_reply_transparent [transparent]:
  "same_endpoint s s' \<Longrightarrow> server_reply hmac ecdsa issuer mode s now d = server_reply hmac ecdsa issuer mode s' now d"
  by (simp add: server_work_transparent flip: server_work_reply)

lemma limited_server_transparent:
  assumes "same_endpoint s s'" and "label s = label s'"
  shows "limited_server hmac ecdsa issuer mode label ords lim s now d
    = limited_server hmac ecdsa issuer mode label ords lim s' now d"
  unfolding limited_server_def assms(2) allow_transparent [OF assms(1)] server_work_transparent [OF assms(1)] ..

lemma bucket_readings_transparent:
  "same_endpoint s s' \<Longrightarrow>
   bucket_readings (us @ reading_new cls s # vs) v4 v6 = bucket_readings (us @ reading_new cls s' # vs) v4 v6"
  by (induction us arbitrary: v4 v6)
    (auto simp: same_endpoint_def reading_new_def Let_def split: ip_addr.split)

lemma establish_transparent [transparent]:
  "same_endpoint s s' \<Longrightarrow> establish (us @ reading_new cls s # vs) = establish (us @ reading_new cls s' # vs)"
  by (simp add: establish_def bucket_readings_transparent)

text \<open>The clients pass over what comes from another spelling of their server, as from anybody else.\<close>

lemma clients_compare_exactly:
  assumes "s \<noteq> s'" and "clock < start + timeout"
  shows "snd (query_reflexive_address fill send_error start s timeout ((clock, Datagram d s') # polls))
      = snd (query_reflexive_address fill send_error start s timeout polls)"
    and "snd (query_reflexive_address_signed debug fill send_errors start s timeout signer ((clock, Datagram d s') # polls))
      = snd (query_reflexive_address_signed debug fill send_errors start s timeout signer polls)"
  using assms(1) [symmetric] assms(2)
  by (simp_all add: query_reflexive_address_def query_reflexive_address_signed_def Let_def case_prod_beta emit_def
      split: option.split)

section \<open>Properties\<close>

text \<open>C12: an IPv4 endpoint and its IPv6 spellings are one, everywhere but at the clients. Two socket
  addresses with one folded address and one port have the same scope; the same bytes announce them; an observer
  answers them alike, and the limiter charges them to the same bucket; nonces made for one are checked
  as for the other; the server replies to every datagram from either with the same bytes, and so does the server
  with its limiter in front, given that the session the deployment derives from an endpoint is the same for both;
  as peers they are one class, and as readings, at any place among others, they lead to the same verdicts.
  The exception are the two clients, which compare the sender of a datagram with the server they asked as it
  is spelled: before the deadline, a datagram from the other spelling is passed over and changes no result.\<close>
theorem dual_stack_transparent:
  assumes "fold_ip (sock_ip s) = fold_ip (sock_ip s')" and "sock_port s = sock_port s'"
  shows "scope_of s = scope_of s'
    \<and> encode_binding_success t s = encode_binding_success t s'
    \<and> observe (session_meta_new dir path s) = observe (session_meta_new dir path s')
    \<and> allow ords lim session (sock_ip s) now_ms = allow ords lim session (sock_ip s') now_ms
    \<and> issue hmac issuer s now = issue hmac issuer s' now
    \<and> check_nonce hmac issuer v s now = check_nonce hmac issuer v s' now
    \<and> server_reply hmac ecdsa issuer mode s now d = server_reply hmac ecdsa issuer mode s' now d
    \<and> (label s = label s' \<longrightarrow>
         limited_server hmac ecdsa issuer mode label ords lim s now_ms d = limited_server hmac ecdsa issuer mode label ords lim s' now_ms d)
    \<and> peer (sock_ip s) = peer (sock_ip s')
    \<and> establish (us @ reading_new cls s # vs) = establish (us @ reading_new cls s' # vs)
    \<and> (s \<noteq> s' \<and> clock < start + timeout \<longrightarrow>
         snd (query_reflexive_address fill send_error start s timeout ((clock, Datagram d s') # polls))
           = snd (query_reflexive_address fill send_error start s timeout polls)
         \<and> snd (query_reflexive_address_signed debug fill send_errors start s timeout signer ((clock, Datagram d s') # polls))
           = snd (query_reflexive_address_signed debug fill send_errors start s timeout signer polls))"
proof -
  have "same_endpoint s s'" using assms by (simp add: same_endpoint_def)
  then show ?thesis
    by (intro conjI impI) (rule transparent limited_server_transparent clients_compare_exactly, (assumption | erule conjunct1 conjunct2)+)+
qed

theorem dual_stack_transparent_witness:
  "server_reply example_hmac example_ecdsa (from_secret (replicate 32 5)) Required (SockV4 (Ipv4 8 8 4 4) 9444) 7
      (encode_binding_request (example_id 0))
   = server_reply example_hmac example_ecdsa (from_secret (replicate 32 5)) Required
       (SockV6 (Ipv6 0 0 0 0 0 0xffff 0x808 0x404) 9444 1 2) 7 (encode_binding_request (example_id 0))"
  using dual_stack_transparent [where s = "SockV4 (Ipv4 8 8 4 4) 9444" and label = "\<lambda>_. ''udp''"
      and s' = "SockV6 (Ipv6 0 0 0 0 0 0xffff 0x808 0x404) 9444 1 2"]
  by simp

end
