(* ===== verification/Eviction.thy ===== *)
theory Eviction
  imports LimiterSpec
begin

text \<open>
  The budgets of \<open>src/observe.rs\<close> when its maps are full. Evicting a key forgets what it has spent, so the
  budget of a key in a window is no longer its capacity; it is the capacity once more for every time the
  key is evicted, whatever else happens to the limiter, and nothing besides.
\<close>

section \<open>Budgets with refills\<close>

text \<open>The contract of a budget that some calls fill up again, by at most \<open>full\<close>.\<close>

fun occurrences :: "('s \<Rightarrow> 'c \<Rightarrow> bool) \<Rightarrow> ('s \<Rightarrow> 'c \<Rightarrow> 's \<times> bool) \<Rightarrow> 's \<Rightarrow> 'c list \<Rightarrow> nat" where
  "occurrences p step s [] = 0"
| "occurrences p step s (c # cs) = of_bool (p s c) + occurrences p step (fst (step s c)) cs"

locale refilled_budget =
  fixes step :: "'s \<Rightarrow> 'c \<Rightarrow> 's \<times> bool" and ok :: "'s \<Rightarrow> 'c \<Rightarrow> bool" and counts :: "'c \<Rightarrow> bool"
    and inv :: "'s \<Rightarrow> bool" and avail :: "'s \<Rightarrow> nat" and refills :: "'s \<Rightarrow> 'c \<Rightarrow> bool" and full :: nat
  assumes step_inv: "inv s \<Longrightarrow> ok s c \<Longrightarrow> inv (fst (step s c))"
    and step_spends_or_refills: "inv s \<Longrightarrow> ok s c \<Longrightarrow>
      avail (fst (step s c)) + of_bool (snd (step s c) \<and> counts c) \<le> avail s + full * of_bool (refills s c)"
begin

lemma run_grants_le:
  "inv s \<Longrightarrow> run_ok ok step s cs \<Longrightarrow>
   grants counts cs (snd (run_calls step s cs)) \<le> avail s + full * occurrences refills step s cs"
proof (induction cs arbitrary: s)
  case (Cons c cs)
  let ?s = "fst (step s c)"
  from Cons.prems have "grants counts cs (snd (run_calls step ?s cs)) \<le> avail ?s + full * occurrences refills step ?s cs"
    by (intro Cons.IH) (simp_all add: step_inv)
  moreover have "avail ?s + of_bool (snd (step s c) \<and> counts c) \<le> avail s + full * of_bool (refills s c)"
    using Cons.prems by (intro step_spends_or_refills) simp_all
  ultimately have "of_bool (snd (step s c) \<and> counts c) + grants counts cs (snd (run_calls step ?s cs))
      \<le> avail s + full * occurrences refills step s (c # cs)"
    by (simp add: distrib_left)
  moreover have "grants counts (c # cs) (snd (run_calls step s (c # cs)))
      = of_bool (snd (step s c) \<and> counts c) + grants counts cs (snd (run_calls step ?s cs))"
    by (simp add: grants_def case_prod_beta Let_def)
  ultimately show ?case by simp
qed (simp add: grants_def)

end

section \<open>Evictions\<close>

definition evicts_session :: "string \<Rightarrow> observe_limiter \<Rightarrow> call \<Rightarrow> bool" where
  "evicts_session k lim c \<longleftrightarrow> drops (per_session lim) (per_session (fst (allow_call lim c))) k"

definition evicts_source :: "ip_addr \<Rightarrow> observe_limiter \<Rightarrow> call \<Rightarrow> bool" where
  "evicts_source k lim c \<longleftrightarrow> drops (per_source lim) (per_source (fst (allow_call lim c))) k"

text \<open>One dimension of a call: its own bucket is charged or not, any other is kept or dropped, and a
  dropped one counts as full.\<close>

lemma dimension_step:
  assumes "store_inv m"
    and "bucket_avail cap w b + of_bool g \<le> bucket_avail cap w (bucket_at (bucket_for ord m k' cap now win) k')"
  defines "m' \<equiv> AList.update k' b (bucket_for ord m k' cap now win)"
  shows "map_avail cap w k m' + of_bool (g \<and> k' = k) \<le> map_avail cap w k m + unat cap * of_bool (drops m m' k)"
proof (cases "k' = k")
  case True
  then show ?thesis
    using assms(2) bucket_at_avail [OF assms(1), of cap w ord k' now win] by (simp add: m'_def map_avail_put)
next
  case False
  then have m': "map_of m' k = map_of (bucket_for ord m k' cap now win) k"
    by (simp add: m'_def AList.update_conv')
  show ?thesis
  proof (cases "map_of m' k")
    case None
    then show ?thesis using False by (simp add: map_avail_def drops_def split: option.split)
  next
    case (Some c)
    then have "map_of m k = Some c" using store.ensure_other [OF assms(1)] False m' by metis
    with Some False show ?thesis by (simp add: map_avail_def)
  qed
qed

lemma dimension_untouched:
  fixes m and ord and k' and cap and now and win
  assumes "store_inv m"
  defines "m' \<equiv> bucket_for ord m k' cap now win"
  shows "map_avail cap w k m' \<le> map_avail cap w k m + unat cap * of_bool (drops m m' k)"
proof -
  obtain b where "map_of m' k' = Some b" using store.ensure_get [OF assms(1)] unfolding m'_def by metis
  then have same: "map_of (AList.update k' (bucket_at m' k') m') = map_of m'"
    by (auto simp: bucket_at_def AList.update_conv')
  then have "map_avail cap w k (AList.update k' (bucket_at m' k') m') = map_avail cap w k m'"
      "drops m (AList.update k' (bucket_at m' k') m') k = drops m m' k"
    by (simp_all add: map_avail_def drops_def)
  with dimension_step [OF assms(1), of cap w "bucket_at m' k'" False ord k' now win k]
  show ?thesis by (simp add: m'_def)
qed

lemma outcome_refills:
  assumes "map_outcome ord m k' cap now m' g" and "store_inv m" and "0 < cap" and "now div SESSION_SOURCE_WINDOW_MS = w"
  shows "map_avail cap w k m' + of_bool (g \<and> k' = k) \<le> map_avail cap w k m + unat cap * of_bool (drops m m' k)"
proof (cases g)
  case True
  let ?b = "bucket_at (bucket_for ord m k' cap now SESSION_SOURCE_WINDOW_MS) k'"
  have "bucket_avail cap w (spend ?b cap now SESSION_SOURCE_WINDOW_MS) + of_bool g \<le> bucket_avail cap w ?b"
    using assms(1,3,4) spend_avail [of cap ?b now SESSION_SOURCE_WINDOW_MS w] True by (simp add: map_outcome_def Let_def)
  from dimension_step [OF assms(2) this] True assms(1) show ?thesis by (simp add: map_outcome_def Let_def)
next
  case False
  let ?b = "bucket_at (bucket_for ord m k' cap now SESSION_SOURCE_WINDOW_MS) k'"
  have "bucket_avail cap w (?b\<lparr>last_seen_ms := now\<rparr>) + of_bool False \<le> bucket_avail cap w ?b" by simp
  from dimension_step [OF assms(2) this, of k] dimension_untouched [OF assms(2), of cap w k ord k' now SESSION_SOURCE_WINDOW_MS] False assms(1) show ?thesis
    by (auto simp: map_outcome_def Let_def)
qed

interpretation session_refill: refilled_budget allow_call "in_window SESSION_SOURCE_WINDOW_MS w"
  "\<lambda>(_, session, _, _). session = k" "\<lambda>lim. 0 < cap \<and> limiter_inv cap gcap lim"
  "\<lambda>lim. map_avail cap w k (per_session lim)" "evicts_session k" "unat cap" for cap gcap w k
proof
  fix lim and c :: call
  assume inv: "0 < cap \<and> limiter_inv cap gcap lim" and w: "in_window SESSION_SOURCE_WINDOW_MS w lim c"
  obtain ords session source now where c: "c = (ords, session, source, now)" by (metis prod_cases4)
  show "0 < cap \<and> limiter_inv cap gcap (fst (allow_call lim c))" using inv allow_inv by (cases c) auto
  show "map_avail cap w k (per_session (fst (allow_call lim c)))
      + of_bool (snd (allow_call lim c) \<and> (case c of (_, session, _, _) \<Rightarrow> session = k))
    \<le> map_avail cap w k (per_session lim) + unat cap * of_bool (evicts_session k lim c)"
    using outcome_refills [OF allow_outcomes(1) [of cap gcap lim], of now w] inv w
    by (simp add: c evicts_session_def in_window_def limiter_inv_def)
qed

interpretation source_refill: refilled_budget allow_call "in_window SESSION_SOURCE_WINDOW_MS w"
  "\<lambda>(_, _, source, _). fold_ip source = k" "\<lambda>lim. 0 < cap \<and> limiter_inv cap gcap lim"
  "\<lambda>lim. map_avail cap w k (per_source lim)" "evicts_source k" "unat cap" for cap gcap w k
proof
  fix lim and c :: call
  assume inv: "0 < cap \<and> limiter_inv cap gcap lim" and w: "in_window SESSION_SOURCE_WINDOW_MS w lim c"
  obtain ords session source now where c: "c = (ords, session, source, now)" by (metis prod_cases4)
  show "0 < cap \<and> limiter_inv cap gcap (fst (allow_call lim c))" using inv allow_inv by (cases c) auto
  show "map_avail cap w k (per_source (fst (allow_call lim c)))
      + of_bool (snd (allow_call lim c) \<and> (case c of (_, _, source, _) \<Rightarrow> fold_ip source = k))
    \<le> map_avail cap w k (per_source lim) + unat cap * of_bool (evicts_source k lim c)"
    using outcome_refills [OF allow_outcomes(2) [of cap gcap lim], of now w] inv w
    by (simp add: c evicts_source_def in_window_def limiter_inv_def)
qed

text \<open>Only a call that does not fit evicts.\<close>

lemma evicts_only_unfit:
  assumes "limiter_inv cap gcap lim"
  shows "evicts_session k lim c \<Longrightarrow> \<not> session_fits lim c" and "evicts_source a lim c \<Longrightarrow> \<not> source_fits lim c"
proof -
  have maps: "store_inv (per_session lim)" "store_inv (per_source lim)" using assms by (simp_all add: limiter_inv_def)
  obtain ords session source now where c: "c = (ords, session, source, now)" by (metis prod_cases4)
  show "evicts_session k lim c \<Longrightarrow> \<not> session_fits lim c"
    using outcome_drops_nothing [OF allow_outcomes(1) [OF assms] maps(1)]
    by (fastforce simp: c evicts_session_def session_fits_def)
  show "evicts_source a lim c \<Longrightarrow> \<not> source_fits lim c"
    using outcome_drops_nothing [OF allow_outcomes(2) [OF assms] maps(2)]
    by (fastforce simp: c evicts_source_def source_fits_def)
qed

lemma evicts_one:
  assumes "limiter_inv cap gcap lim"
  shows "evicts_session k lim c \<Longrightarrow> evicts_session l lim c \<Longrightarrow> k = l"
    and "evicts_source a lim c \<Longrightarrow> evicts_source b lim c \<Longrightarrow> a = b"
proof -
  have maps: "store_inv (per_session lim)" "store_inv (per_source lim)" using assms by (simp_all add: limiter_inv_def)
  obtain ords session source now where c: "c = (ords, session, source, now)" by (metis prod_cases4)
  show "evicts_session k lim c \<Longrightarrow> evicts_session l lim c \<Longrightarrow> k = l"
    using outcome_drops_one [OF allow_outcomes(1) [OF assms] maps(1)] by (simp add: c evicts_session_def)
  show "evicts_source a lim c \<Longrightarrow> evicts_source b lim c \<Longrightarrow> a = b"
    using outcome_drops_one [OF allow_outcomes(2) [OF assms] maps(2)] by (simp add: c evicts_source_def)
qed

text \<open>So much is a key granted in a minute.\<close>

lemma session_grants_le:
  assumes "limiter_reach cap gcap lim" and "0 < cap"
    and "run_ok (in_window SESSION_SOURCE_WINDOW_MS w) allow_call lim calls"
  shows "grants (\<lambda>(_, session, _, _). session = k) calls (snd (run_calls allow_call lim calls))
    \<le> unat cap * Suc (occurrences (evicts_session k) allow_call lim calls)"
proof -
  have inv: "0 < cap \<and> limiter_inv cap gcap lim" using assms(1,2) limiter_reach_inv by blast
  then have "map_avail cap w k (per_session lim) \<le> unat cap" by (simp add: map_avail_le limiter_inv_def)
  with session_refill.run_grants_le [OF inv assms(3), of k] show ?thesis by simp
qed

lemma source_grants_le:
  assumes "limiter_reach cap gcap lim" and "0 < cap"
    and "run_ok (in_window SESSION_SOURCE_WINDOW_MS w) allow_call lim calls"
  shows "grants (\<lambda>(_, _, source, _). fold_ip source = k) calls (snd (run_calls allow_call lim calls))
    \<le> unat cap * Suc (occurrences (evicts_source k) allow_call lim calls)"
proof -
  have inv: "0 < cap \<and> limiter_inv cap gcap lim" using assms(1,2) limiter_reach_inv by blast
  then have "map_avail cap w k (per_source lim) \<le> unat cap" by (simp add: map_avail_le limiter_inv_def)
  with source_refill.run_grants_le [OF inv assms(3), of k] show ?thesis by simp
qed

lemma occurrences_mono:
  assumes "\<And>s c. good s \<Longrightarrow> p s c \<Longrightarrow> q s c" and "\<And>s c. good s \<Longrightarrow> good (fst (step s c))" and "good s"
  shows "occurrences p step s cs \<le> occurrences q step s cs"
  using assms(3)
proof (induction cs arbitrary: s)
  case (Cons c cs)
  have "of_bool (p s c) \<le> (of_bool (q s c) :: nat)" using assms(1) [OF Cons.prems] by simp
  moreover have "occurrences p step (fst (step s c)) cs \<le> occurrences q step (fst (step s c)) cs"
    by (rule Cons.IH [OF assms(2) [OF Cons.prems]])
  ultimately show ?case by simp
qed simp

section \<open>Properties\<close>

text \<open>C22: the narrow budgets, with full maps and all. From every state the limiter can be in, over any calls
  inside one minute, by however many sessions and sources and whatever is evicted on the way: a session is
  granted at most the capacity, and the capacity once more for each time it was itself evicted, and a
  folded source likewise. And a key is evicted only by calls that ask for an untracked key while the map is
  full. The comments promise the capacity without condition; this is what is left of the promise.\<close>
theorem grants_past_eviction:
  assumes "limiter_reach cap gcap lim" and "0 < cap"
    and "run_ok (in_window SESSION_SOURCE_WINDOW_MS w) allow_call lim calls"
  shows "grants (\<lambda>(_, session, _, _). session = k) calls (snd (run_calls allow_call lim calls))
      \<le> unat cap * Suc (occurrences (evicts_session k) allow_call lim calls)
    \<and> grants (\<lambda>(_, _, source, _). fold_ip source = a) calls (snd (run_calls allow_call lim calls))
      \<le> unat cap * Suc (occurrences (evicts_source a) allow_call lim calls)
    \<and> occurrences (evicts_session k) allow_call lim calls \<le> occurrences (\<lambda>lim c. \<not> session_fits lim c) allow_call lim calls
    \<and> occurrences (evicts_source a) allow_call lim calls \<le> occurrences (\<lambda>lim c. \<not> source_fits lim c) allow_call lim calls"
proof -
  have inv: "limiter_inv cap gcap lim" by (rule limiter_reach_inv [OF assms(1)])
  have kept: "limiter_inv cap gcap (fst (allow_call lim c))" if "limiter_inv cap gcap lim" for lim c
    using that by (cases c) (simp add: allow_inv)
  have "occurrences (evicts_session k) allow_call lim calls \<le> occurrences (\<lambda>lim c. \<not> session_fits lim c) allow_call lim calls"
    by (rule occurrences_mono [where good = "limiter_inv cap gcap"]) (use evicts_only_unfit(1) kept inv in blast)+
  moreover have "occurrences (evicts_source a) allow_call lim calls \<le> occurrences (\<lambda>lim c. \<not> source_fits lim c) allow_call lim calls"
    by (rule occurrences_mono [where good = "limiter_inv cap gcap"]) (use evicts_only_unfit(2) kept inv in blast)+
  ultimately show ?thesis
    using session_grants_le [OF assms] source_grants_le [OF assms] by blast
qed

theorem grants_past_eviction_witness:
  "grants (\<lambda>(_, session, _, _). session = ''a'') [example_call, example_call] (snd (run_calls allow_call (limiter_new 1 64) [example_call, example_call]))
   \<le> unat (1 :: u32) * Suc (occurrences (evicts_session ''a'') allow_call (limiter_new 1 64) [example_call, example_call])"
  by (rule conjunct1 [OF grants_past_eviction [OF limiter_reach.reach_new, where w = 0]])
    (simp_all add: in_window_def SESSION_SOURCE_WINDOW_MS_def)

end
