(* ===== verification/Isolation.thy ===== *)
theory Isolation
  imports Eviction
begin

text \<open>
  The reason \<open>src/observe.rs\<close> gives for asking the narrow budgets first: one abuser can never drain the
  budget meant for everyone else. How many abusers it takes, by folded source or by session, and that
  up to that number the global budget refuses nobody.
\<close>

section \<open>Exact budgets\<close>

text \<open>A budget that pays for its grants and for nothing else.\<close>

locale exact_budget = window_budget step ok counts inv avail
  for step :: "'s \<Rightarrow> 'c \<Rightarrow> 's \<times> bool" and ok :: "'s \<Rightarrow> 'c \<Rightarrow> bool" and counts :: "'c \<Rightarrow> bool"
    and inv :: "'s \<Rightarrow> bool" and avail :: "'s \<Rightarrow> nat" +
  assumes step_pays: "inv s \<Longrightarrow> ok s c \<Longrightarrow>
      avail s \<le> avail (fst (step s c)) + (if snd (step s c) \<and> counts c then 1 else 0)"
begin

lemma run_inv: "inv s \<Longrightarrow> run_ok ok step s cs \<Longrightarrow> inv (fst (run_calls step s cs))"
  by (induction cs arbitrary: s) (simp_all add: case_prod_beta Let_def step_inv)

lemma run_pays:
  "inv s \<Longrightarrow> run_ok ok step s cs \<Longrightarrow>
   avail (fst (run_calls step s cs)) + grants counts cs (snd (run_calls step s cs)) = avail s"
proof (induction cs arbitrary: s)
  case (Cons c cs)
  let ?s = "fst (step s c)"
  from Cons.prems have "avail (fst (run_calls step ?s cs)) + grants counts cs (snd (run_calls step ?s cs)) = avail ?s"
    by (intro Cons.IH) (simp_all add: step_inv)
  moreover have "avail ?s + (if snd (step s c) \<and> counts c then 1 else 0) = avail s"
    using step_spends [of s c] step_pays [of s c] Cons.prems by (intro antisym) simp_all
  ultimately show ?case
    by (auto simp: grants_def case_prod_beta Let_def split: if_splits)
qed (simp add: grants_def)

end

interpretation global_exact: exact_budget allow_call "in_window GLOBAL_WINDOW_MS w" "\<lambda>_. True"
  "\<lambda>lim. 0 < gcap \<and> limiter_inv cap gcap lim" "\<lambda>lim. bucket_avail gcap w (global lim)" for cap gcap w
proof
  fix lim and c :: call
  assume inv: "0 < gcap \<and> limiter_inv cap gcap lim" and w: "in_window GLOBAL_WINDOW_MS w lim c"
  obtain ords session source now where c: "c = (ords, session, source, now)" by (metis prod_cases4)
  show "bucket_avail gcap w (global lim)
    \<le> bucket_avail gcap w (global (fst (allow_call lim c))) + (if snd (allow_call lim c) \<and> True then 1 else 0)"
    using inv w spend_avail_eq [of gcap "global lim" now GLOBAL_WINDOW_MS]
    by (auto simp: c allow_eq limiter_inv_def Let_def in_window_def)
qed

section \<open>Grants by group\<close>

lemma length_filter_sum:
  assumes "finite A" and "\<And>x. x \<in> set xs \<Longrightarrow> P x \<Longrightarrow> f x \<in> A"
  shows "length (filter P xs) = (\<Sum>a\<in>A. length (filter (\<lambda>x. P x \<and> f x = a) xs))"
  using assms(2)
proof (induction xs)
  case (Cons x xs)
  have "(\<Sum>a\<in>A. length (filter (\<lambda>y. P y \<and> f y = a) (x # xs)))
    = (\<Sum>a\<in>A. (if f x = a then of_bool (P x) else 0) + length (filter (\<lambda>y. P y \<and> f y = a) xs))"
    by (rule sum.cong) auto
  also have "\<dots> = of_bool (P x) + length (filter P xs)"
    using Cons assms(1) by (cases "P x") (simp_all add: sum.distrib)
  finally show ?case by simp
qed simp

lemma length_filter_by:
  assumes "finite A" and "\<And>x. x \<in> set xs \<Longrightarrow> P x \<Longrightarrow> f x \<in> A"
    and "\<And>a. a \<in> A \<Longrightarrow> length (filter (\<lambda>x. P x \<and> f x = a) xs) \<le> n"
  shows "length (filter P xs) \<le> card A * n"
proof -
  have "length (filter P xs) = (\<Sum>a\<in>A. length (filter (\<lambda>x. P x \<and> f x = a) xs))"
    by (rule length_filter_sum [OF assms(1,2)])
  also have "\<dots> \<le> card A * n" using sum_bounded_above [of A _ n] assms(3) by simp
  finally show ?thesis .
qed

lemma grants_sum:
  assumes "finite A" and "f ` set cs \<subseteq> A"
  shows "grants (\<lambda>_. True) cs gs = (\<Sum>a\<in>A. grants (\<lambda>c. f c = a) cs gs)"
  using length_filter_sum [where P = snd and f = "\<lambda>x. f (fst x)" and xs = "zip cs gs", OF assms(1)] assms(2)
  by (force simp: grants_def case_prod_unfold dest: set_zip_leftD)

lemma in_second_in_minute:
  "in_window GLOBAL_WINDOW_MS w lim c \<Longrightarrow> in_window SESSION_SOURCE_WINDOW_MS (w div 60) lim c"
  by (auto simp: in_window_def second_in_minute)

lemma length_filter_mono: "(\<And>x. x \<in> set xs \<Longrightarrow> P x \<Longrightarrow> Q x) \<Longrightarrow> length (filter P xs) \<le> length (filter Q xs)"
  by (induction xs) auto

lemma run_ok_mono:
  "run_ok ok step s cs \<Longrightarrow> (\<And>s c. c \<in> set cs \<Longrightarrow> ok s c \<Longrightarrow> ok' s c) \<Longrightarrow> run_ok ok' step s cs"
  by (induction cs arbitrary: s) auto

lemma reach_run: "limiter_reach cap gcap lim \<Longrightarrow> limiter_reach cap gcap (fst (run_calls allow_call lim cs))"
proof (induction cs arbitrary: lim)
  case (Cons c cs)
  then show ?case by (cases c) (simp add: case_prod_beta Let_def limiter_reach.reach_allow)
qed simp

lemma call_source_eq: "call_source c = fold_ip (fst (snd (snd c)))"
  by (cases c) simp

lemma call_session_eq: "call_session c = fst (snd c)"
  by (cases c) simp

text \<open>Nobody is refused for the global budget while it has been asked for less than it holds.\<close>

lemma global_left_over:
  assumes "limiter_reach cap gcap lim" and "0 < gcap" and "window (global lim) \<noteq> w"
    and "run_ok (in_window GLOBAL_WINDOW_MS w) allow_call lim calls"
    and "grants (\<lambda>_. True) calls (snd (run_calls allow_call lim calls)) < unat gcap"
    and "now div GLOBAL_WINDOW_MS = w"
  defines "after \<equiv> fst (run_calls allow_call lim calls)"
  shows "snd (allow ords after session source now)
    \<longleftrightarrow> session_permits ords after session now \<and> source_permits ords after source now"
proof -
  have inv: "0 < gcap \<and> limiter_inv cap gcap lim" using assms(1,2) limiter_reach_inv by blast
  have "bucket_avail gcap w (global lim) = unat gcap" using assms(3) by (simp add: bucket_avail_def)
  with global_exact.run_pays [OF inv assms(4)] assms(5)
  have "0 < bucket_avail gcap w (global after)" by (simp add: after_def)
  then have "peek (global after) now GLOBAL_WINDOW_MS" using assms(2,6) by (simp add: peek_avail)
  moreover have "limiter_inv cap gcap after"
    unfolding after_def by (rule limiter_reach_inv [OF reach_run [OF assms(1)]])
  ultimately show ?thesis by (simp add: allow_eq limiter_inv_def Let_def)
qed

text \<open>So a few groups of callers leave something for the others, where each is held to the narrow capacity and
  gets it once more for each of its evictions, and a call evicts one at most.\<close>

lemma occurrences_sum:
  assumes "finite A" and "\<And>s c. good s \<Longrightarrow> (\<Sum>k\<in>A. of_bool (p k s c)) \<le> (of_bool (q s c) :: nat)"
    and "\<And>s c. good s \<Longrightarrow> good (fst (step s c))" and "good s"
  shows "(\<Sum>k\<in>A. occurrences (p k) step s cs) \<le> occurrences q step s cs"
  using assms(4)
proof (induction cs arbitrary: s)
  case (Cons c cs)
  have "(\<Sum>k\<in>A. occurrences (p k) step (fst (step s c)) cs) \<le> occurrences q step (fst (step s c)) cs"
    by (rule Cons.IH [OF assms(3) [OF Cons.prems]])
  with assms(2) [OF Cons.prems, of c] show ?case by (simp add: sum.distrib add_mono)
qed simp

lemma sum_of_bool_one:
  assumes "finite A" and "\<And>k l. p k \<Longrightarrow> p l \<Longrightarrow> k = l" and "\<And>k. p k \<Longrightarrow> q"
  shows "(\<Sum>k\<in>A. of_bool (p k)) \<le> (of_bool q :: nat)"
proof (cases "\<exists>k\<in>A. p k")
  case True
  then obtain k where k: "k \<in> A" "p k" by blast
  then have "(\<Sum>l\<in>A. of_bool (p l)) = (\<Sum>l\<in>A. if l = k then 1 else (0 :: nat))"
    using assms(2) by (intro sum.cong) auto
  with k assms(1,3) show ?thesis by simp
qed simp

lemma groups_cannot_drain:
  assumes "limiter_reach cap gcap lim" and "window (global lim) \<noteq> w"
    and "run_ok (in_window GLOBAL_WINDOW_MS w) allow_call lim calls"
    and "\<And>k. grants (\<lambda>c. f c = k) calls (snd (run_calls allow_call lim calls))
      \<le> unat cap * Suc (occurrences (evicts k) allow_call lim calls)"
    and "\<And>lim c k l. limiter_inv cap gcap lim \<Longrightarrow> evicts k lim c \<Longrightarrow> evicts l lim c \<Longrightarrow> k = l"
    and "\<And>lim c k. limiter_inv cap gcap lim \<Longrightarrow> evicts k lim c \<Longrightarrow> unfit lim c"
    and "(card (f ` set calls) + occurrences unfit allow_call lim calls) * unat cap < unat gcap"
    and "now div GLOBAL_WINDOW_MS = w"
  defines "after \<equiv> fst (run_calls allow_call lim calls)"
  shows "snd (allow ords after session source now)
    \<longleftrightarrow> session_permits ords after session now \<and> source_permits ords after source now"
proof -
  let ?A = "f ` set calls"
  have "0 < gcap" using assms(7) by (simp add: word_gt_0) (metis not_less0 unat_0)
  have kept: "limiter_inv cap gcap (fst (allow_call lim c))" if "limiter_inv cap gcap lim" for lim c
    using that by (cases c) (simp add: allow_inv)
  have "(\<Sum>k\<in>?A. occurrences (evicts k) allow_call lim calls) \<le> occurrences unfit allow_call lim calls"
    using limiter_reach_inv [OF assms(1)]
    by (intro occurrences_sum [where good = "limiter_inv cap gcap"] sum_of_bool_one kept) (use assms(5,6) in \<open>auto\<close>)
  have "grants (\<lambda>_. True) calls (snd (run_calls allow_call lim calls))
      = (\<Sum>k\<in>?A. grants (\<lambda>c. f c = k) calls (snd (run_calls allow_call lim calls)))"
    by (rule grants_sum) simp_all
  also have "\<dots> \<le> (\<Sum>k\<in>?A. unat cap * Suc (occurrences (evicts k) allow_call lim calls))"
    by (rule sum_mono) (rule assms(4))
  also have "\<dots> = unat cap * (card ?A + (\<Sum>k\<in>?A. occurrences (evicts k) allow_call lim calls))"
    by (simp only: sum_distrib_left [symmetric] Suc_eq_plus1 sum.distrib sum_constant) (simp add: add.commute)
  also have "\<dots> \<le> unat cap * (card ?A + occurrences unfit allow_call lim calls)"
    using \<open>_ \<le> occurrences unfit allow_call lim calls\<close> by simp
  also have "\<dots> < unat gcap" using assms(7) by (simp add: mult.commute)
  finally show ?thesis
    unfolding after_def using \<open>0 < gcap\<close> by (intro global_left_over [OF assms(1) _ assms(2,3) _ assms(8)])
qed

lemma run_in_minute:
  "run_ok (in_window GLOBAL_WINDOW_MS w) step lim cs \<Longrightarrow>
   run_ok (in_window SESSION_SOURCE_WINDOW_MS (w div 60)) step lim cs"
  by (erule run_ok_mono) (rule in_second_in_minute)

text \<open>The same by session, however many sources the sessions call from.\<close>

lemma sessions_cannot_drain:
  assumes "limiter_reach cap gcap lim" and "0 < cap" and "window (global lim) \<noteq> w"
    and "run_ok (in_window GLOBAL_WINDOW_MS w) allow_call lim calls"
    and "(card (call_session ` set calls) + occurrences (\<lambda>lim c. \<not> session_fits lim c) allow_call lim calls) * unat cap
      < unat gcap"
    and "now div GLOBAL_WINDOW_MS = w"
  defines "after \<equiv> fst (run_calls allow_call lim calls)"
  shows "snd (allow ords after session source now)
    \<longleftrightarrow> session_permits ords after session now \<and> source_permits ords after source now"
  unfolding after_def
proof (rule groups_cannot_drain [OF assms(1,3,4) _ _ _ assms(5,6)])
  show "grants (\<lambda>c. call_session c = k) calls (snd (run_calls allow_call lim calls))
      \<le> unat cap * Suc (occurrences (evicts_session k) allow_call lim calls)" for k
    using session_grants_le [OF assms(1,2) run_in_minute [OF assms(4)]]
    by (simp add: grants_def case_prod_beta call_session_eq)
qed (blast dest: evicts_one evicts_only_unfit)+

section \<open>Properties\<close>

text \<open>C7: one abuser cannot drain the budget of everyone else, nor can a few. From every state the limiter
  can be in, with a positive narrow capacity, in a second the global bucket has not been asked in yet: let
  \<open>n\<close> sources call, however often and under however many session labels, and let \<open>e\<close> of the calls come
  from an untracked source while the source map is full (each evicts a source, whose bucket is then
  full again; \<open>e\<close> is 0 while the map has room). If \<open>n + e\<close> times the narrow capacity is less than the global
  one (with the defaults, up to ten), then the global budget refuses nobody for the rest of that second. A
  call then is granted exactly when its own session and its own source permit.\<close>
theorem abusers_cannot_drain:
  assumes "limiter_reach cap gcap lim" and "0 < cap" and "window (global lim) \<noteq> w"
    and "run_ok (in_window GLOBAL_WINDOW_MS w) allow_call lim calls"
    and "(card (call_source ` set calls) + occurrences (\<lambda>lim c. \<not> source_fits lim c) allow_call lim calls) * unat cap
      < unat gcap"
    and "now div GLOBAL_WINDOW_MS = w"
  defines "after \<equiv> fst (run_calls allow_call lim calls)"
  shows "snd (allow ords after session source now)
    \<longleftrightarrow> session_permits ords after session now \<and> source_permits ords after source now"
  unfolding after_def
proof (rule groups_cannot_drain [OF assms(1,3,4) _ _ _ assms(5,6)])
  show "grants (\<lambda>c. call_source c = k) calls (snd (run_calls allow_call lim calls))
      \<le> unat cap * Suc (occurrences (evicts_source k) allow_call lim calls)" for k
    using source_grants_le [OF assms(1,2) run_in_minute [OF assms(4)]]
    by (simp add: grants_def case_prod_beta call_source_eq)
qed (blast dest: evicts_one evicts_only_unfit)+

text \<open>A source that has spent its one token of the minute under two labels, and a peer it does not touch.\<close>

theorem abusers_cannot_drain_witness:
  "snd (allow std_orders (fst (run_calls allow_call (limiter_new 1 2)
      [(std_orders, ''a'', example_source, 60001), (std_orders, ''b'', example_source, 60002)])) ''d'' (IpV4 (Ipv4 9 9 9 9)) 60004)"
proof -
  let ?calls = "[(std_orders, ''a'', example_source, 60001), (std_orders, ''b'', example_source, 60002)]"
  note evaluate = allow_def limiter_new_def bucket_for_def bucket_at_def peek_def spend_def bucket_new_def
    saturating_pred_def MAX_TRACKED_SOURCES_def SESSION_SOURCE_WINDOW_MS_def GLOBAL_WINDOW_MS_def Let_def
  have "window (global (limiter_new 1 2)) \<noteq> 60" by (simp add: limiter_new_def bucket_new_def)
  moreover have "run_ok (in_window GLOBAL_WINDOW_MS 60) allow_call (limiter_new 1 2) ?calls"
    and "occurrences (\<lambda>lim c. \<not> source_fits lim c) allow_call (limiter_new 1 2) ?calls = 0"
    by (simp_all add: evaluate in_window_def source_fits_def store_room_def)
  ultimately have "snd (allow std_orders (fst (run_calls allow_call (limiter_new 1 2) ?calls)) ''d'' (IpV4 (Ipv4 9 9 9 9)) 60004)
      \<longleftrightarrow> session_permits std_orders (fst (run_calls allow_call (limiter_new 1 2) ?calls)) ''d'' 60004
        \<and> source_permits std_orders (fst (run_calls allow_call (limiter_new 1 2) ?calls)) (IpV4 (Ipv4 9 9 9 9)) 60004"
    by (intro abusers_cannot_drain [OF limiter_reach.reach_new]) (simp_all add: GLOBAL_WINDOW_MS_def)
  then show ?thesis by (simp add: evaluate session_permits_def source_permits_def session_map_def source_map_def)
qed

end
