(* ===== verification/Flood.thy ===== *)
theory Flood
  imports LimitedServer Isolation
begin

text \<open>
  An honest client among many. The server of LimitedServer has been running since its limiter was
  made, for anybody; the client's two datagrams arrive somewhere in that traffic. What the limiter
  promises (theory LimiterSpec), what a few sources can take (theory Isolation) and the handshake
  (theory Server) together give the client its address.
\<close>

section \<open>A caller within its budget\<close>

definition grant_of :: "call \<Rightarrow> grant" where
  "grant_of c = (call_session c, call_source c, call_time c)"

lemma grant_of_eq [simp]: "grant_of (ords, session, source, now) = (session, fold_ip source, now)"
  by (simp add: grant_of_def)

lemma run_calls_state: "fst (run_calls step s (c # cs)) = fst (run_calls step (fst (step s c)) cs)"
  by (simp add: case_prod_beta Let_def)

lemma spec_step_cases:
  "fst (spec_step cap gcap log c) = (if snd (spec_step cap gcap log c) then grant_of c # log else log)"
  by (cases c) simp

lemma log_le_calls:
  "length (filter P (fst (run_calls (spec_step cap gcap) log cs)))
     \<le> length (filter P log) + length (filter (\<lambda>c. P (grant_of c)) cs)"
proof (induction cs arbitrary: log)
  case (Cons c cs)
  have "length (filter P (fst (spec_step cap gcap log c))) \<le> length (filter P log) + of_bool (P (grant_of c))"
    by (simp add: spec_step_cases)
  with Cons [of "fst (spec_step cap gcap log c)"] show ?case
    by (cases "P (grant_of c)") (simp_all add: run_calls_state del: run_calls.simps spec_step.simps)
qed simp

lemma log_of_calls:
  "set (fst (run_calls (spec_step cap gcap) log cs)) \<subseteq> set log \<union> grant_of ` set cs"
proof (induction cs arbitrary: log)
  case (Cons c cs)
  have "set (fst (spec_step cap gcap log c)) \<subseteq> insert (grant_of c) (set log)"
    by (auto simp: spec_step_cases)
  with Cons [of "fst (spec_step cap gcap log c)"] show ?case
    by (auto simp: run_calls_state simp del: run_calls.simps spec_step.simps)
qed simp

text \<open>The log never holds more than the narrow capacity for one source in one minute.\<close>

lemma log_source_bound:
  assumes "\<forall>w. window_count (\<lambda>(_, a, _). a = k) SESSION_SOURCE_WINDOW_MS w log \<le> unat cap"
  shows "window_count (\<lambda>(_, a, _). a = k) SESSION_SOURCE_WINDOW_MS w (fst (run_calls (spec_step cap gcap) log cs)) \<le> unat cap"
  using assms
proof (induction cs arbitrary: log)
  case (Cons c cs)
  obtain ords session source now where c: "c = (ords, session, source, now)" by (metis prod_cases4)
  have "window_count (\<lambda>(_, a, _). a = k) SESSION_SOURCE_WINDOW_MS v (fst (spec_step cap gcap log c)) \<le> unat cap" for v
  proof (cases "fold_ip source = k \<and> now div SESSION_SOURCE_WINDOW_MS = v \<and> snd (spec_step cap gcap log c)")
    case True
    then have "window_count (\<lambda>(_, a, _). a = k) SESSION_SOURCE_WINDOW_MS v log < unat cap"
      by (auto simp: c spec_allow_def split: if_splits)
    then show ?thesis using True by (simp add: spec_step_cases c window_count_def del: spec_step.simps)
  next
    case False
    then have "window_count (\<lambda>(_, a, _). a = k) SESSION_SOURCE_WINDOW_MS v (fst (spec_step cap gcap log c))
      = window_count (\<lambda>(_, a, _). a = k) SESSION_SOURCE_WINDOW_MS v log"
      by (auto simp: spec_step_cases c window_count_def simp del: spec_step.simps)
    with Cons.prems show ?thesis by simp
  qed
  with Cons.IH [of "fst (spec_step cap gcap log c)"] show ?case
    by (simp add: run_calls_state del: run_calls.simps spec_step.simps)
qed simp

lemma run_ok_append:
  "run_ok ok step s (xs @ ys) \<longleftrightarrow> run_ok ok step s xs \<and> run_ok ok step (fst (run_calls step s xs)) ys"
  by (induction xs arbitrary: s) (simp_all add: case_prod_beta Let_def)

text \<open>After any calls since the limiter was made, the next one is granted exactly as the log says.\<close>

lemma next_call:
  assumes "0 < cap" and "0 < gcap" and "sorted (map call_time (cs @ [c]))"
    and "card (call_session ` set (cs @ [c])) \<le> MAX_TRACKED_SOURCES" and "card (call_source ` set (cs @ [c])) \<le> MAX_TRACKED_SOURCES"
  shows "snd (allow_call (fst (run_calls allow_call (limiter_new cap gcap) cs)) c)
    = snd (spec_step cap gcap (fst (run_calls (spec_step cap gcap) [] cs)) c)"
proof -
  let ?S = "call_session ` set (cs @ [c])" and ?A = "call_source ` set (cs @ [c])"
  have "run_ok (call_ok ?S ?A) (spec_step cap gcap) [] (cs @ [c])"
    by (rule run_ok_sorted [OF assms(3) order_refl order_refl]) (simp add: timely_def)
  then have ok: "run_ok (call_ok ?S ?A) (spec_step cap gcap) [] cs"
      "call_ok ?S ?A (fst (run_calls (spec_step cap gcap) [] cs)) c"
    by (simp_all add: run_ok_append del: set_append)
  have "roomy cap gcap ?S ?A \<and> log_rel cap gcap ?S ?A [] (limiter_new cap gcap)"
    using assms log_rel_new by (simp add: roomy_def del: set_append)
  from limiter.run_same [OF this ok(1)]
  have "roomy cap gcap ?S ?A \<and> log_rel cap gcap ?S ?A (fst (run_calls (spec_step cap gcap) [] cs))
      (fst (run_calls allow_call (limiter_new cap gcap) cs))" by blast
  from limiter.same_answer [OF this ok(2)] show ?thesis .
qed

text \<open>So a caller that has asked less often in this minute than the narrow capacity is granted, while the other sources of
  this second are few.\<close>

lemma quiet_caller_granted:
  assumes "0 < cap" and "0 < gcap" and "sorted (map call_time (cs @ [c]))"
    and "card (call_session ` set (cs @ [c])) \<le> MAX_TRACKED_SOURCES" and "card (call_source ` set (cs @ [c])) \<le> MAX_TRACKED_SOURCES"
    and "length (filter (\<lambda>c'. call_session c' = call_session c
           \<and> call_time c' div SESSION_SOURCE_WINDOW_MS = call_time c div SESSION_SOURCE_WINDOW_MS) cs) < unat cap"
    and "length (filter (\<lambda>c'. call_source c' = call_source c
           \<and> call_time c' div SESSION_SOURCE_WINDOW_MS = call_time c div SESSION_SOURCE_WINDOW_MS) cs) < unat cap"
    and "card {call_source c' | c'. c' \<in> set cs \<and> call_source c' \<noteq> call_source c
           \<and> call_time c' div GLOBAL_WINDOW_MS = call_time c div GLOBAL_WINDOW_MS} * unat cap
         + length (filter (\<lambda>c'. call_source c' = call_source c
             \<and> call_time c' div GLOBAL_WINDOW_MS = call_time c div GLOBAL_WINDOW_MS) cs) < unat gcap"
      (is "card ?others * _ + ?own < _")
  shows "snd (allow_call (fst (run_calls allow_call (limiter_new cap gcap) cs)) c)"
proof -
  obtain ords session source now where c: "c = (ords, session, source, now)" by (metis prod_cases4)
  define log where "log = fst (run_calls (spec_step cap gcap) [] cs)"
  let ?w = "now div GLOBAL_WINDOW_MS"
  have calls: "length (filter P log) \<le> length (filter (\<lambda>c. P (grant_of c)) cs)" for P
    using log_le_calls [of P cap gcap "[]" cs] by (simp add: log_def)
  let ?m = "now div SESSION_SOURCE_WINDOW_MS"
  have session: "window_count (\<lambda>(s, _, _). s = session) SESSION_SOURCE_WINDOW_MS ?m log < unat cap"
    using calls [of "\<lambda>g. fst g = session \<and> snd (snd g) div SESSION_SOURCE_WINDOW_MS = ?m"] assms(6)
    by (simp add: window_count_def grant_of_def c case_prod_unfold)
  have source: "window_count (\<lambda>(_, a, _). a = fold_ip source) SESSION_SOURCE_WINDOW_MS ?m log < unat cap"
    using calls [of "\<lambda>g. fst (snd g) = fold_ip source \<and> snd (snd g) div SESSION_SOURCE_WINDOW_MS = ?m"] assms(7)
    by (simp add: window_count_def grant_of_def c case_prod_unfold)
  have own: "length (filter (\<lambda>g. fst (snd g) = fold_ip source \<and> snd (snd g) div GLOBAL_WINDOW_MS = ?w) log) \<le> ?own"
    using calls [of "\<lambda>g. fst (snd g) = fold_ip source \<and> snd (snd g) div GLOBAL_WINDOW_MS = ?w"]
    by (simp add: grant_of_def c)
  have "length (filter (\<lambda>g. snd (snd g) div GLOBAL_WINDOW_MS = ?w \<and> fst (snd g) \<noteq> fold_ip source) log)
      \<le> card ?others * unat cap"
  proof (rule length_filter_by [where f = "\<lambda>g. fst (snd g)"])
    show "finite ?others" by (rule finite_subset [of _ "call_source ` set cs"]) blast+
  next
    fix g
    assume "g \<in> set log" and "snd (snd g) div GLOBAL_WINDOW_MS = ?w \<and> fst (snd g) \<noteq> fold_ip source"
    then show "fst (snd g) \<in> ?others"
      using log_of_calls [of cap gcap "[]" cs] by (fastforce simp: log_def grant_of_def c)
  next
    fix a
    have "length (filter (\<lambda>g. (snd (snd g) div GLOBAL_WINDOW_MS = ?w \<and> fst (snd g) \<noteq> fold_ip source) \<and> fst (snd g) = a) log)
      \<le> window_count (\<lambda>(_, b, _). b = a) SESSION_SOURCE_WINDOW_MS (?w div 60) log"
      unfolding window_count_def
      by (rule length_filter_mono) (auto simp flip: second_in_minute)
    also have "\<dots> \<le> unat cap"
      unfolding log_def by (rule log_source_bound) (simp add: window_count_def)
    finally show "length (filter (\<lambda>g. (snd (snd g) div GLOBAL_WINDOW_MS = ?w \<and> fst (snd g) \<noteq> fold_ip source) \<and> fst (snd g) = a) log)
      \<le> unat cap" .
  qed
  moreover have "window_count (\<lambda>_. True) GLOBAL_WINDOW_MS ?w log
      \<le> length (filter (\<lambda>g. snd (snd g) div GLOBAL_WINDOW_MS = ?w \<and> fst (snd g) \<noteq> fold_ip source) log)
        + length (filter (\<lambda>g. fst (snd g) = fold_ip source \<and> snd (snd g) div GLOBAL_WINDOW_MS = ?w) log)"
    unfolding window_count_def by (induction log) auto
  ultimately have "window_count (\<lambda>_. True) GLOBAL_WINDOW_MS ?w log < unat gcap"
    using own assms(8) by (simp add: c)
  then have "snd (spec_step cap gcap log c)" using session source by (simp add: c spec_allow_def)
  then show ?thesis using next_call [OF assms(1-5)] by (simp add: log_def)
qed

section \<open>The server as a caller of its limiter\<close>

text \<open>Which datagrams the limiter is asked about, and the call it is asked.\<close>

definition reaches_limiter :: "bytes \<Rightarrow> bool" where
  "reaches_limiter d \<longleftrightarrow> (case classify_request d of Some (Inl (credential_error.Stun _)) \<Rightarrow> False | _ \<Rightarrow> True)"

fun call_of :: "(socket_addr \<Rightarrow> string) \<Rightarrow> datagram \<Rightarrow> call" where
  "call_of label (ords, src, now_ms, d) = (ords, label src, sock_ip src, now_ms)"

fun payload :: "datagram \<Rightarrow> bytes" where
  "payload (ords, src, now_ms, d) = d"

abbreviation calls_of :: "(socket_addr \<Rightarrow> string) \<Rightarrow> datagram list \<Rightarrow> call list" where
  "calls_of label dgs \<equiv> map (call_of label) (filter (\<lambda>dg. reaches_limiter (payload dg)) dgs)"

lemma serve_one_limiter:
  assumes "hmac_sha256_output hmac"
  shows "fst (serve_one hmac ecdsa issuer mode label lim dg)
    = (if reaches_limiter (payload dg) then fst (allow_call lim (call_of label dg)) else lim)"
proof -
  obtain ords src now_ms d where dg: "dg = (ords, src, now_ms, d)" by (metis prod_cases4)
  obtain lim' reply calls where
    l: "limited_server hmac ecdsa issuer mode label ords lim src now_ms d = Some (lim', reply, calls)"
    using limited_server_total [OF assms] by blast
  then show ?thesis
    by (auto simp: dg serve_one_def reaches_limiter_def limited_server_def case_prod_beta Let_def
        split: option.splits sum.splits credential_error.splits if_splits)
qed

lemma serve_all_limiter:
  assumes "hmac_sha256_output hmac"
  shows "fst (serve_all hmac ecdsa issuer mode label lim dgs) = fst (run_calls allow_call lim (calls_of label dgs))"
proof (induction dgs arbitrary: lim)
  case (Cons dg dgs)
  show ?case
    using Cons [of "fst (serve_one hmac ecdsa issuer mode label lim dg)"]
    by (simp add: case_prod_beta Let_def serve_one_limiter [OF assms])
qed simp

lemma serve_one_granted:
  assumes "reaches_limiter (payload dg)" and "snd (allow_call lim (call_of label dg))"
    and "dg = (ords, src, now_ms, d)" and "server_reply hmac ecdsa issuer mode src (now_ms div 1000) d = Some reply"
  shows "fst (snd (serve_one hmac ecdsa issuer mode label lim dg)) = reply"
proof -
  obtain w where w: "server_work hmac ecdsa issuer mode src (now_ms div 1000) d = Some w" "fst w = reply"
    using assms(4) unfolding server_work_reply [symmetric] by auto
  have "classify_request d \<noteq> None" using classify_total [of d] by auto
  with assms(1-3) w show ?thesis
    by (auto simp: serve_one_def reaches_limiter_def limited_server_def case_prod_beta Let_def
        split: option.splits sum.splits credential_error.splits)
qed

lemma serve_all_append:
  "fst (snd (serve_all hmac ecdsa issuer mode label lim (xs @ ys)))
   = fst (snd (serve_all hmac ecdsa issuer mode label lim xs))
     @ fst (snd (serve_all hmac ecdsa issuer mode label (fst (serve_all hmac ecdsa issuer mode label lim xs)) ys))"
  by (induction xs arbitrary: lim) (simp_all add: case_prod_beta Let_def)

lemma serve_all_length: "length (fst (snd (serve_all hmac ecdsa issuer mode label lim dgs))) = length dgs"
  by (induction dgs arbitrary: lim) (simp_all add: case_prod_beta Let_def)

lemma serve_all_nth:
  "fst (snd (serve_all hmac ecdsa issuer mode label lim (xs @ dg # ys))) ! length xs
   = fst (snd (serve_one hmac ecdsa issuer mode label (fst (serve_all hmac ecdsa issuer mode label lim xs)) dg))"
  by (simp add: serve_all_append nth_append serve_all_length case_prod_beta Let_def)

section \<open>Within budget\<close>

type_synonym arrival = "socket_addr \<times> u64"

fun arrival :: "datagram \<Rightarrow> arrival" where
  "arrival (ords, src, now_ms, d) = (src, now_ms)"

text \<open>The folded address, and the windows of a time.\<close>

abbreviation folded :: "socket_addr \<Rightarrow> ip_addr" where
  "folded src \<equiv> fold_ip (sock_ip src)"

abbreviation same_minute :: "u64 \<Rightarrow> u64 \<Rightarrow> bool" where
  "same_minute m n \<equiv> m div SESSION_SOURCE_WINDOW_MS = n div SESSION_SOURCE_WINDOW_MS"

abbreviation same_second :: "u64 \<Rightarrow> u64 \<Rightarrow> bool" where
  "same_second m n \<equiv> m div GLOBAL_WINDOW_MS = n div GLOBAL_WINDOW_MS"

text \<open>What has arrived before leaves room for one more from \<open>src\<close>: fewer than the narrow capacity
  under its label, and from its address, in this minute; and in this second the other addresses, each
  counted with the narrow capacity, leave room in the global one.\<close>

fun within_budget :: "(socket_addr \<Rightarrow> string) \<Rightarrow> u32 \<Rightarrow> u32 \<Rightarrow> arrival list \<Rightarrow> arrival \<Rightarrow> bool" where
  "within_budget label cap gcap past (src, m) \<longleftrightarrow>
     length (filter (\<lambda>(s, n). label s = label src \<and> same_minute n m) past) < unat cap
     \<and> length (filter (\<lambda>(s, n). folded s = folded src \<and> same_minute n m) past) < unat cap
     \<and> card (folded ` fst ` set (filter (\<lambda>(s, n). folded s \<noteq> folded src \<and> same_second n m) past)) * unat cap
         + length (filter (\<lambda>(s, n). folded s = folded src \<and> same_second n m) past) < unat gcap"

text \<open>Filtering out what never reaches the limiter only helps.\<close>

lemma length_filter_calls:
  assumes "\<And>dg. dg \<in> set dgs \<Longrightarrow> P (call_of label dg) \<Longrightarrow> Q (arrival dg)"
  shows "length (filter P (calls_of label dgs)) \<le> length (filter Q (map arrival dgs))"
proof -
  have "length (filter P (calls_of label dgs)) \<le> length (filter (\<lambda>dg. P (call_of label dg)) dgs)"
    by (simp add: filter_map comp_def) (rule length_filter_mono, simp)
  also have "\<dots> \<le> length (filter (\<lambda>dg. Q (arrival dg)) dgs)"
    by (rule length_filter_mono) (rule assms)
  finally show ?thesis by (simp add: filter_map comp_def)
qed

lemma call_of_simps:
  "call_time (call_of label dg) = snd (arrival dg)"
  "call_session (call_of label dg) = label (fst (arrival dg))"
  "call_source (call_of label dg) = folded (fst (arrival dg))"
  by (cases dg; simp)+

lemma arrivals_cards:
  assumes "card (g ` fst ` set (map arrival dgs)) \<le> n" and "\<And>dg. f (call_of label dg) = g (fst (arrival dg))"
  shows "card (f ` set (calls_of label dgs)) \<le> n"
proof -
  have "f ` set (calls_of label dgs) = (\<lambda>dg. g (fst (arrival dg))) ` set (filter (\<lambda>dg. reaches_limiter (payload dg)) dgs)"
    by (simp only: set_map image_image assms(2))
  also have "\<dots> \<subseteq> (\<lambda>dg. g (fst (arrival dg))) ` set dgs" by (rule image_mono) simp
  finally have "card (f ` set (calls_of label dgs)) \<le> card (g ` fst ` set (map arrival dgs))"
    by (intro card_mono) (simp_all add: image_image)
  with assms(1) show ?thesis by simp
qed

lemma other_sources:
  "card {call_source c | c. c \<in> set (calls_of label dgs) \<and> call_source c \<noteq> a \<and> same_second (call_time c) m}
   \<le> card (folded ` fst ` set (filter (\<lambda>(s, n). folded s \<noteq> a \<and> same_second n m) (map arrival dgs)))"
proof (rule card_mono)
  show "finite (folded ` fst ` set (filter (\<lambda>(s, n). folded s \<noteq> a \<and> same_second n m) (map arrival dgs)))"
    by (intro finite_imageI finite_set)
  show "{call_source c | c. c \<in> set (calls_of label dgs) \<and> call_source c \<noteq> a \<and> same_second (call_time c) m}
    \<subseteq> folded ` fst ` set (filter (\<lambda>(s, n). folded s \<noteq> a \<and> same_second n m) (map arrival dgs))"
    by (force simp: call_of_simps)
qed

lemma served_within_budget:
  assumes "hmac_sha256_output hmac" and "sorted (map snd (map arrival (dgs @ [dg])))"
    and "card (label ` fst ` set (map arrival (dgs @ [dg]))) \<le> MAX_TRACKED_SOURCES"
    and "card (folded ` fst ` set (map arrival (dgs @ [dg]))) \<le> MAX_TRACKED_SOURCES"
    and "within_budget label cap gcap (map arrival dgs) (src, m)"
    and "dg = (ords, src, m, d)" and "reaches_limiter d"
    and "server_reply hmac ecdsa issuer mode src (m div 1000) d = Some reply"
  shows "fst (snd (serve_one hmac ecdsa issuer mode label
      (fst (serve_all hmac ecdsa issuer mode label (limiter_new cap gcap) dgs)) dg)) = reply"
proof (rule serve_one_granted [OF _ _ assms(6,8)])
  let ?cs = "calls_of label dgs" and ?c = "call_of label dg"
  have calls: "calls_of label (dgs @ [dg]) = ?cs @ [?c]" using assms(6,7) by simp
  note budget = assms(5) [unfolded within_budget.simps]
  have pos: "0 < cap" "0 < gcap" using budget by (auto simp: word_gt_0)
  have "snd (allow_call (fst (run_calls allow_call (limiter_new cap gcap) ?cs)) ?c)"
  proof (rule quiet_caller_granted [OF pos])
    show "sorted (map call_time (?cs @ [?c]))"
      unfolding calls [symmetric]
      using sorted_filter [of "\<lambda>dg. snd (arrival dg)" "dgs @ [dg]" "\<lambda>dg. reaches_limiter (payload dg)"] assms(2)
      by (simp add: call_of_simps comp_def)
    show "card (call_session ` set (?cs @ [?c])) \<le> MAX_TRACKED_SOURCES"
      unfolding calls [symmetric] by (rule arrivals_cards [OF assms(3)]) (simp add: call_of_simps)
    show "card (call_source ` set (?cs @ [?c])) \<le> MAX_TRACKED_SOURCES"
      unfolding calls [symmetric] by (rule arrivals_cards [OF assms(4)]) (simp add: call_of_simps)
    show "length (filter (\<lambda>c'. call_session c' = call_session ?c \<and> same_minute (call_time c') (call_time ?c)) ?cs) < unat cap"
      by (rule le_less_trans [OF length_filter_calls [where Q = "\<lambda>(s, n). label s = label src \<and> same_minute n m"]])
        (use budget in \<open>simp_all add: call_of_simps assms(6) case_prod_unfold\<close>)
    show "length (filter (\<lambda>c'. call_source c' = call_source ?c \<and> same_minute (call_time c') (call_time ?c)) ?cs) < unat cap"
      by (rule le_less_trans [OF length_filter_calls [where Q = "\<lambda>(s, n). folded s = folded src \<and> same_minute n m"]])
        (use budget in \<open>simp_all add: call_of_simps assms(6) case_prod_unfold\<close>)
    show "card {call_source c' | c'. c' \<in> set ?cs \<and> call_source c' \<noteq> call_source ?c \<and> same_second (call_time c') (call_time ?c)} * unat cap
        + length (filter (\<lambda>c'. call_source c' = call_source ?c \<and> same_second (call_time c') (call_time ?c)) ?cs) < unat gcap"
    proof (rule le_less_trans [OF add_mono])
      show "card {call_source c' | c'. c' \<in> set ?cs \<and> call_source c' \<noteq> call_source ?c \<and> same_second (call_time c') (call_time ?c)} * unat cap
          \<le> card (folded ` fst ` set (filter (\<lambda>(s, n). folded s \<noteq> folded src \<and> same_second n m) (map arrival dgs))) * unat cap"
        using other_sources [of label dgs "folded src" m] by (simp add: call_of_simps(2,3) assms(6))
      show "length (filter (\<lambda>c'. call_source c' = call_source ?c \<and> same_second (call_time c') (call_time ?c)) ?cs)
          \<le> length (filter (\<lambda>(s, n). folded s = folded src \<and> same_second n m) (map arrival dgs))"
        by (rule length_filter_calls) (simp add: call_of_simps assms(6) case_prod_unfold)
    qed (use budget in blast)
  qed
  then show "snd (allow_call (fst (serve_all hmac ecdsa issuer mode label (limiter_new cap gcap) dgs)) ?c)"
    by (simp add: serve_all_limiter [OF assms(1)])
qed (use assms(6,7) in simp)

text \<open>Two datagrams within budget are replied to in their places.\<close>

lemma both_served:
  fixes label :: "socket_addr \<Rightarrow> string" and before between :: "datagram list" and src :: socket_addr and m0 :: u64 and o0 o1 :: orders
  defines "past0 \<equiv> map arrival before"
    and "past1 \<equiv> map arrival before @ (src, m0) # map arrival between"
  assumes "hmac_sha256_output hmac" and "sorted (map snd (past1 @ [(src', m1)]))"
    and "card (label ` fst ` set (past1 @ [(src', m1)])) \<le> MAX_TRACKED_SOURCES"
    and "card (folded ` fst ` set (past1 @ [(src', m1)])) \<le> MAX_TRACKED_SOURCES"
    and "within_budget label cap gcap past0 (src, m0)" and "within_budget label cap gcap past1 (src', m1)"
    and "reaches_limiter d0" and "server_reply hmac ecdsa issuer mode src (m0 div 1000) d0 = Some (Some r0)"
    and "reaches_limiter d1" and "server_reply hmac ecdsa issuer mode src' (m1 div 1000) d1 = Some (Some r1)"
  defines "replies \<equiv> fst (snd (serve_all hmac ecdsa issuer mode label (limiter_new cap gcap)
          (before @ (o0, src, m0, d0) # between @ [(o1, src', m1, d1)])))"
  shows "replies ! length before = Some r0 \<and> last replies = Some r1"
proof
  let ?dg0 = "(o0, src, m0, d0)" and ?dg1 = "(o1, src', m1, d1)"
  let ?serve = "serve_all hmac ecdsa issuer mode label (limiter_new cap gcap)"
  have "fst (snd (serve_one hmac ecdsa issuer mode label (fst (?serve before)) ?dg0)) = Some r0"
  proof (rule served_within_budget [OF assms(3) _ _ _ _ refl assms(9,10)])
    show "sorted (map snd (map arrival (before @ [?dg0])))" using assms(4) by (simp add: past1_def sorted_append)
    show "card (label ` fst ` set (map arrival (before @ [?dg0]))) \<le> MAX_TRACKED_SOURCES"
      by (rule order_trans [OF card_mono assms(5)]) (auto simp: past1_def)
    show "card (folded ` fst ` set (map arrival (before @ [?dg0]))) \<le> MAX_TRACKED_SOURCES"
      by (rule order_trans [OF card_mono assms(6)]) (auto simp: past1_def)
    show "within_budget label cap gcap (map arrival before) (src, m0)" using assms(7) by (simp only: past0_def)
  qed
  then show "replies ! length before = Some r0" by (simp only: replies_def serve_all_nth)
  have "fst (snd (serve_one hmac ecdsa issuer mode label (fst (?serve (before @ ?dg0 # between))) ?dg1)) = Some r1"
    by (rule served_within_budget [OF assms(3) _ _ _ _ refl assms(11,12)])
      (use assms(4-6,8) in \<open>simp_all only: map_append list.map arrival.simps past1_def append_assoc append_Cons append_Nil\<close>)
  then show "last replies = Some r1"
    using serve_all_append [of hmac ecdsa issuer mode label "limiter_new cap gcap" "before @ ?dg0 # between" "[?dg1]"]
    by (simp add: replies_def case_prod_beta Let_def)
qed

section \<open>Properties\<close>

text \<open>C4: an honest client gets its address from a server under load. Let the server have run since its limiter was
  made, on any datagrams from anybody, with non-decreasing times and no more labels and sources
  than the limiter tracks. If the two datagrams of a client arrive within budget (fewer than the narrow
  capacity under its label and from its address in that minute, and, in that second, the other sources
  times the narrow capacity below the global one) and within one minute of each other, then both are replied
  to in their places, the first with the challenge, the second with a success, and these two replies are
  enough for the client to return its address. So with the default budgets a flood from up to ten
  addresses a second, whatever it contains, does not keep anybody else from an answer.\<close>
theorem handshake_under_flood:
  fixes mode :: credential_mode and start timeout now1 now2 :: nat and server :: socket_addr and debug :: bool
    and label :: "socket_addr \<Rightarrow> string" and before between :: "datagram list"
  assumes "hmac_sha256_output hmac" and "is_valid_spki_der (spki_der signer)"
    and "\<forall>m. is_valid_signature_der_len (sign signer m) \<and> ecdsa (drop 26 (spki_der signer)) m (sign signer m)"
    and "new_transaction_id fill 0 = Some t0" and "new_transaction_id fill 1 = Some t1"
    and "folded src = folded src'" and "sock_port src = sock_port src'" and "is_usable_reflexive_addr src"
    and "unat m1 - unat m0 \<le> 60000" and "unat m1 div 60000 < 2 ^ 32"
    and "now1 < start + timeout" and "now2 < start + timeout"
  defines "past0 \<equiv> map arrival before"
    and "past1 \<equiv> map arrival before @ (src, m0) # map arrival between"
  assumes "sorted (map snd (past1 @ [(src', m1)]))"
    and "card (label ` fst ` set (past1 @ [(src', m1)])) \<le> MAX_TRACKED_SOURCES"
    and "card (folded ` fst ` set (past1 @ [(src', m1)])) \<le> MAX_TRACKED_SOURCES"
    and "within_budget label cap gcap past0 (src, m0)" and "within_budget label cap gcap past1 (src', m1)"
  shows "\<exists>d0 r0 d1 r1.
    (let replies = fst (snd (serve_all hmac ecdsa issuer mode label (limiter_new cap gcap)
          (before @ (o0, src, m0, d0) # between @ [(o1, src', m1, d1)])))
     in replies ! length before = Some r0 \<and> last replies = Some r1)
    \<and> (let run = query_reflexive_address_signed debug fill (\<lambda>_. None) start server timeout signer
          [(now1, Datagram r0 server), (now2, Datagram r1 server)]
       in datagrams (fst run) = [(d0, server), (d1, server)]
          \<and> snd run = Done (Inr (sock_new (folded src) (sock_port src))))"
proof -
  obtain raw r0 where raw: "issue hmac issuer src (m0 div 1000) = Some raw" "length raw = NONCE_LEN"
      "encode_challenge t0 401 (Some raw) = Some r0"
    and r0: "server_reply hmac ecdsa issuer mode src (m0 div 1000) (request_with t0 (identity_attr (spki_der signer))) = Some (Some r0)"
    by (rule handshake_first_reply [OF assms(1,2)])
  let ?d0 = "request_with t0 (identity_attr (spki_der signer))" and ?d1 = "challenged_request t1 raw signer"
  have m: "m0 \<le> m1" using assms(15) by (simp add: past1_def sorted_append)
  then have "m0 div 1000 \<le> m1 div 1000" by (rule div_mono_word)
  moreover have "unat (m1 div 1000) - unat (m0 div 1000) \<le> 60"
    using assms(9) div_le_mono [of "unat m1" "unat m0 + 60 * 1000" 1000] by (simp add: unat_div)
  moreover have "unat (m1 div 1000) div 60 < 2 ^ 32" using assms(10) by (simp add: unat_div flip: div_mult2_eq)
  ultimately have r1: "server_reply hmac ecdsa issuer mode src' (m1 div 1000) ?d1 = Some (Some (encode_binding_success t1 src'))"
    by (rule handshake_second_reply [where ecdsa = ecdsa, OF assms(1-3) raw(1) _ _ _ assms(6,7)])
  have reach: "reaches_limiter ?d0" "reaches_limiter ?d1"
    using classify_identity_request [OF assms(2)] classify_challenged_request [OF assms(2) _ raw(2)] assms(3)
    by (simp_all add: reaches_limiter_def)
  note served = both_served [OF assms(1) assms(15-19) [unfolded past0_def past1_def] reach(1) r0 reach(2) r1, of o0 o1]
  have "is_usable_reflexive_addr src'"
    using assms(6-8) usable_folded [of src] usable_folded [of src'] by simp
  note run = handshake_client [OF assms(2) raw(2,3) assms(4,5) this assms(11,12)]
  show ?thesis
    using served assms(6,7)
    by (intro exI [of _ ?d0] exI [of _ r0] exI [of _ ?d1] exI [of _ "encode_binding_success t1 src'"]) (simp add: run)
qed

text \<open>A spoofed flood of one datagram before and one between.\<close>

abbreviation flood_datagram :: "u64 \<Rightarrow> datagram" where
  "flood_datagram m \<equiv> (std_orders, SockV4 (Ipv4 6 6 6 6) 53, m, encode_binding_request (example_id 9))"

theorem handshake_under_flood_witness:
  "\<exists>d0 r0 d1 r1.
    (let replies = fst (snd (serve_all example_hmac example_ecdsa (from_secret (replicate 32 5)) Required (\<lambda>_. ''udp'') (limiter_new 6 64)
          ([flood_datagram 100000] @ (std_orders, example_mapped, 100001, d0) # [flood_datagram 100002]
            @ [(std_orders, example_mapped, 100003, d1)])))
     in replies ! length [flood_datagram 100000] = Some r0 \<and> last replies = Some r1)
    \<and> (let run = query_reflexive_address_signed True example_fill (\<lambda>_. None) 100 example_server 50 example_signer
          [(110, Datagram r0 example_server), (120, Datagram r1 example_server)]
       in datagrams (fst run) = [(d0, example_server), (d1, example_server)]
          \<and> snd run = Done (Inr (sock_new (folded example_mapped) (sock_port example_mapped))))"
proof (rule handshake_under_flood [OF example_hmac_output example_signer_valid(1) _ example_fill_id example_fill_id])
  show "within_budget (\<lambda>_. ''udp'') 6 64 (map arrival [flood_datagram 100000]) (example_mapped, 100001)"
    by (simp add: GLOBAL_WINDOW_MS_def SESSION_SOURCE_WINDOW_MS_def)
  show "within_budget (\<lambda>_. ''udp'') 6 64 (map arrival [flood_datagram 100000] @ (example_mapped, 100001) # map arrival [flood_datagram 100002])
      (example_mapped, 100003)"
    by (simp add: GLOBAL_WINDOW_MS_def SESSION_SOURCE_WINDOW_MS_def)
qed (simp_all add: MAX_TRACKED_SOURCES_def card_insert_if word_le_nat_alt)

end
