(* ===== verification/SignedStep.thy ===== *)
theory SignedStep
  imports Server
begin

text \<open>
  The signed exchange, one turn at a time. \<open>signed_loop\<close> of SignedClient follows the loop of
  \<open>query_reflexive_address_signed\<close> (\<open>src/credential/signed_client.rs\<close>) over a whole list of turns;
  here one turn is a function on the loop's variables, so that the turns of a client can be
  interleaved with those of a server and of an attacker (theory Network). The two agree on every run.
\<close>

section \<open>One turn\<close>

text \<open>The loop's variables: \<open>stage\<close>, \<open>expected_txid\<close> and how many transaction ids were drawn.\<close>

datatype client_state =
    Running stage transaction_id nat
  | Finished "(signed_query_error + socket_addr) run"

text \<open>\<open>send\<close>: one \<open>send_to\<close>, whose error becomes the exchange's own.\<close>

definition send :: "string option \<Rightarrow> socket_addr \<Rightarrow> bytes \<Rightarrow> io_event list \<times> (signed_query_error + unit)" where
  "send outcome server datagram =
     ([SendTo datagram server], case outcome of Some e \<Rightarrow> Inl (Stun (Io e)) | None \<Rightarrow> Inr ())"

definition client_turn ::
  "csprng \<Rightarrow> (nat \<Rightarrow> string option) \<Rightarrow> socket_addr \<Rightarrow> stun_signer \<Rightarrow> stage \<Rightarrow> transaction_id \<Rightarrow> nat \<Rightarrow> turn
   \<Rightarrow> io_event list \<times> client_state" where
  "client_turn fill send_error server signer stg txid k trn =
     (case trn of
        Continue \<Rightarrow> ([], Running stg txid k)
      | Return r \<Rightarrow> ([], Finished (Done r))
      | Panic \<Rightarrow> ([], Finished Panicked)
      | SignAgain nce stg' \<Rightarrow>
          (case new_transaction_id fill k of
             None \<Rightarrow> ([], Finished Panicked)
           | Some txid' \<Rightarrow>
               (case send (send_error k) server (encode_signed_request txid' nce signer) of
                  (io, Inl e) \<Rightarrow> (io, Finished (Done (Inl e)))
                | (io, Inr _) \<Rightarrow> (io, Running stg' txid' (Suc k)))))"

fun client_poll ::
  "csprng \<Rightarrow> (nat \<Rightarrow> string option) \<Rightarrow> socket_addr \<Rightarrow> nat \<Rightarrow> stun_signer \<Rightarrow> poll \<Rightarrow> client_state
   \<Rightarrow> io_event list \<times> client_state" where
  "client_poll fill send_error server deadline signer p (Finished r) = ([], Finished r)"
| "client_poll fill send_error server deadline signer (now, outcome) (Running stg txid k) =
     (if deadline \<le> now then ([], Finished (Done (Inl (Stun Timeout))))
      else (case client_turn fill send_error server signer stg txid k (act server stg txid outcome) of
          (io, c) \<Rightarrow> (Wait (deadline - now) # io, c)))"

fun client_polls ::
  "csprng \<Rightarrow> (nat \<Rightarrow> string option) \<Rightarrow> socket_addr \<Rightarrow> nat \<Rightarrow> stun_signer \<Rightarrow> poll list \<Rightarrow> client_state
   \<Rightarrow> io_event list \<times> client_state" where
  "client_polls fill send_error server deadline signer [] c = ([], c)"
| "client_polls fill send_error server deadline signer (p # ps) c =
     (case client_poll fill send_error server deadline signer p c of
        (io, c') \<Rightarrow> (case client_polls fill send_error server deadline signer ps c' of (io', c'') \<Rightarrow> (io @ io', c'')))"

fun client_result :: "client_state \<Rightarrow> (signed_query_error + socket_addr) run" where
  "client_result (Running _ _ _) = Waiting"
| "client_result (Finished r) = r"

text \<open>What a turn signs: the new transaction id with the nonce it answers.\<close>

fun signs :: "csprng \<Rightarrow> socket_addr \<Rightarrow> nat \<Rightarrow> poll \<Rightarrow> client_state \<Rightarrow> (transaction_id \<times> bytes) list" where
  "signs fill server deadline p (Finished r) = []"
| "signs fill server deadline (now, outcome) (Running stg txid k) =
     (case (act server stg txid outcome, new_transaction_id fill k) of
        (SignAgain nce _, Some txid') \<Rightarrow> if now < deadline then [(txid', nce)] else []
      | _ \<Rightarrow> [])"

section \<open>Lemmas\<close>

lemma client_polls_Finished [simp]:
  "client_polls fill send_error server deadline signer ps (Finished r) = ([], Finished r)"
  by (induction ps) simp_all

lemma signs_member:
  "(t, n) \<in> set (signs fill server deadline p (Running stg txid k)) \<longleftrightarrow>
     fst p < deadline \<and> new_transaction_id fill k = Some t \<and> (\<exists>stg'. act server stg txid (snd p) = SignAgain n stg')"
  by (cases p; cases "act server stg txid (snd p)") (auto split: option.split)

lemma client_poll_datagrams:
  "datagrams (fst (client_poll fill send_error server deadline signer p c))
     = map (\<lambda>(t, n). (encode_signed_request t n signer, server)) (signs fill server deadline p c)"
  by (cases p; cases c) (auto simp: client_turn_def send_def split: turn.split option.split)

text \<open>The turns of a client, one after the other, are the loop of the code.\<close>

lemma signed_loop_turns:
  "signed_loop fill send_error server deadline signer k txid stg polls =
     (let (io, c) = client_polls fill send_error server deadline signer polls (Running stg txid k)
      in (io, client_result c))"
proof (induction polls arbitrary: k txid stg)
  case (Cons p polls)
  show ?case
    by (cases p; cases "act server stg txid (snd p)")
      (auto simp: signed_loop_Cons Cons.IH client_turn_def send_def emit_def case_prod_beta Let_def split: option.split)
qed simp

text \<open>How far along a client is: it has drawn at most three ids, and waits under one it drew.\<close>

definition drew :: "csprng \<Rightarrow> nat \<Rightarrow> transaction_id \<Rightarrow> bool" where
  "drew fill k t \<longleftrightarrow> (\<exists>j < k. new_transaction_id fill j = Some t)"

fun client_inv :: "csprng \<Rightarrow> client_state \<Rightarrow> bool" where
  "client_inv fill (Running stg txid k) \<longleftrightarrow> drew fill k txid \<and> 0 < k \<and> k + sends_left stg \<le> 3"
| "client_inv fill (Finished r) \<longleftrightarrow> True"

lemma client_poll_inv:
  assumes "client_inv fill c"
  shows "client_inv fill (snd (client_poll fill send_error server deadline signer p c))"
proof (cases c)
  case (Running stg txid k)
  show ?thesis
    using assms act_sign [of server stg txid "snd p"]
    by (cases p; cases "act server stg txid (snd p)")
      (auto simp: Running client_turn_def send_def drew_def split: option.split)
qed simp

lemma signs_drew:
  assumes "client_inv fill c" and "(t, n) \<in> set (signs fill server deadline p c)"
  shows "\<exists>j. 0 < j \<and> j < 3 \<and> new_transaction_id fill j = Some t"
proof (cases c)
  case (Running stg txid k)
  with assms(2) obtain stg' where "act server stg txid (snd p) = SignAgain n stg'" and k: "new_transaction_id fill k = Some t"
    by (auto simp: signs_member)
  from act_sign [OF this(1)] assms(1) have "0 < k \<and> k < 3" by (simp add: Running)
  with k show ?thesis by blast
qed (use assms(2) in simp)

text \<open>An address ends the exchange only on a success of the server's address under the current id.\<close>

lemma client_poll_ok:
  assumes "snd (client_poll fill send_error server deadline signer p c) = Finished (Done (Inr a))"
    and "c \<noteq> Finished (Done (Inr a))"
  shows "\<exists>stg txid k d. c = Running stg txid k \<and> snd p = Datagram d server
    \<and> parse_binding_response (received d) (Some txid) = Some (Inr a) \<and> is_usable_reflexive_addr a"
proof (cases c)
  case (Running stg txid k)
  then have "act server stg txid (snd p) = Return (Inr a)"
    using assms(1) by (cases p; cases "act server stg txid (snd p)")
      (auto simp: client_turn_def send_def split: if_splits option.splits)
  from act_ok [OF this] show ?thesis by (simp add: Running)
qed (use assms in auto)

text \<open>The nonce a client signs comes out of a received datagram, so it has fewer than 512 bytes.\<close>

lemma challenge_nonce_length:
  assumes "parse_challenge msg t = Some (Inr ch)" and "challenge_nonce ch = Some n"
  shows "length n \<le> length msg"
proof -
  have "20 \<le> length msg" using assms(1) by (rule_tac ccontr) (simp add: parse_challenge_short)
  then obtain ty len ck u rest where m: "msg = header ty len ck u @ rest" by (rule header_split)
  with assms(1) have "ch = challenge_of (tlvs (take (unat len) rest))"
    by (auto simp: parse_challenge_header fold_challenge split: if_splits)
  with assms(2) have "Attr ATTR_NONCE n \<in> set (tlvs (take (unat len) rest))"
    by (auto simp: challenge_of_def last_of_def values_of_member [symmetric] split: if_splits)
  from tlvs_member_length [OF this] show ?thesis by (simp add: m)
qed

lemma act_nonce_length:
  assumes "act server stg t outcome = SignAgain n stg'"
  shows "length n \<le> 512"
proof -
  from assms obtain d where d: "handle_datagram stg t (received d) = SignAgain n stg'"
    by (auto simp: act_def split: recv.splits if_splits)
  then obtain ch where "parse_challenge (received d) t = Some (Inr ch)" "handle_challenge stg ch = SignAgain n stg'"
    by (auto simp: handle_datagram_def split: if_splits option.splits sum.splits)
  moreover from this(2) have "challenge_nonce ch = Some n"
    by (auto simp: handle_challenge_def Let_def split: stage.splits option.splits if_splits)
  ultimately show ?thesis using challenge_nonce_length by (fastforce simp: received_def)
qed

lemma signs_nonce_length:
  "(t, n) \<in> set (signs fill server deadline p c) \<Longrightarrow> length n \<le> 512"
  by (cases c) (auto simp: signs_member dest: act_nonce_length)

section \<open>Termination\<close>

lemma client_polls_append:
  "client_polls fill send_error server deadline signer (ps @ qs) c =
     (let (io, c') = client_polls fill send_error server deadline signer ps c;
          (io', c'') = client_polls fill send_error server deadline signer qs c'
      in (io @ io', c''))"
  by (induction ps arbitrary: c) (simp_all add: case_prod_beta Let_def)

lemma exchange_turns:
  assumes "is_valid_spki_der (spki_der signer)" and "new_transaction_id fill 0 = Some t" and "send_error 0 = None"
  shows "query_reflexive_address_signed debug fill send_error start server timeout signer polls =
    (let (io, c) = client_polls fill send_error server (start + timeout) signer polls (Running Initial t 1)
     in (SendTo (request_with t (identity_attr (spki_der signer))) server # io, client_result c))"
  using assms by (simp add: query_signed_result signed_loop_turns emit_def case_prod_beta Let_def)

text \<open>A turn that ends the exchange whatever state it is in: the deadline has passed, the timer ran
  out, or the socket failed.\<close>

definition final_poll :: "nat \<Rightarrow> poll \<Rightarrow> bool" where
  "final_poll deadline p \<longleftrightarrow> deadline \<le> fst p \<or> snd p = Elapsed \<or> (\<exists>e. snd p = RecvFailed e)"

lemma final_poll_finishes:
  "final_poll deadline p \<Longrightarrow>
   \<exists>r. snd (client_poll fill send_error server deadline signer p c) = Finished r \<and> (r = Waiting \<longrightarrow> c = Finished Waiting)"
  by (cases p; cases c) (auto simp: final_poll_def act_def client_turn_def)

lemma client_poll_not_waiting:
  "c \<noteq> Finished Waiting \<Longrightarrow> snd (client_poll fill send_error server deadline signer p c) \<noteq> Finished Waiting"
  by (cases p; cases c; cases "act server (case c of Running stg _ _ \<Rightarrow> stg | _ \<Rightarrow> Initial)
      (case c of Running _ t _ \<Rightarrow> t) (snd p)")
    (auto simp: client_turn_def send_def split: option.split)

lemma client_polls_not_waiting:
  "c \<noteq> Finished Waiting \<Longrightarrow> snd (client_polls fill send_error server deadline signer ps c) \<noteq> Finished Waiting"
  by (induction ps arbitrary: c) (simp_all add: client_poll_not_waiting case_prod_beta Let_def)

lemma client_polls_final:
  assumes "final_poll deadline p"
  shows "client_result (snd (client_polls fill send_error server deadline signer (ps @ p # qs) (Running stg t k))) \<noteq> Waiting
    \<and> client_polls fill send_error server deadline signer (ps @ p # qs) (Running stg t k)
      = client_polls fill send_error server deadline signer (ps @ [p]) (Running stg t k)"
proof -
  let ?c = "snd (client_polls fill send_error server deadline signer ps (Running stg t k))"
  have "?c \<noteq> Finished Waiting" by (rule client_polls_not_waiting) simp
  with final_poll_finishes [OF assms] obtain r
    where "snd (client_poll fill send_error server deadline signer p ?c) = Finished r" "r \<noteq> Waiting" by metis
  then show ?thesis by (simp add: client_polls_append case_prod_beta Let_def)
qed

text \<open>C25: the exchange ends. Whatever turns went before and would come after, a turn at or past the
  one deadline, an elapsed timer or a socket error makes the call return (or have returned), and nothing
  that comes later changes the result or sends another datagram.\<close>
theorem signed_query_terminates:
  assumes "final_poll (start + timeout) p"
  shows "snd (query_reflexive_address_signed debug fill send_error start server timeout signer (before @ p # after)) \<noteq> Waiting
    \<and> query_reflexive_address_signed debug fill send_error start server timeout signer (before @ p # after)
      = query_reflexive_address_signed debug fill send_error start server timeout signer (before @ [p])"
proof (cases "is_valid_spki_der (spki_der signer)")
  case True
  then show ?thesis
  proof (cases "new_transaction_id fill 0")
    case None
    then show ?thesis using True by (simp add: query_reflexive_address_signed_def)
  next
    case (Some t)
    show ?thesis
    proof (cases "send_error 0")
      case None
      show ?thesis
        using client_polls_final [OF assms, of fill send_error server signer before after Initial t 1]
        by (auto simp: exchange_turns [where send_error = send_error, OF True Some None] case_prod_beta Let_def)
    qed (simp add: query_reflexive_address_signed_def True Some encode_identity_eq Let_def)
  qed
qed (simp add: query_reflexive_address_signed_def)

theorem signed_query_terminates_witness:
  "snd (query_reflexive_address_signed True example_fill (\<lambda>_. None) 100 example_server 50 example_signer
      ([(110, Datagram (example_challenge 0 401) example_server)] @ (150, Datagram [] example_server) # [])) \<noteq> Waiting"
  by (rule conjunct1 [OF signed_query_terminates]) (simp add: final_poll_def)

end
