(* ===== verification/Network.thy ===== *)
theory Network
  imports SignedStep
begin

text \<open>
  A signed client, its server and an attacker on one network, as a step relation. The client takes
  the turns of SignedStep, the server is the composition of theory Server; datagrams may be lost,
  duplicated, delayed and reordered, the server's clock is arbitrary, and any number of other parties
  talk to the server. What the attacker may feed to the server and to the client is a parameter: an
  off-path attacker knows no transaction id of the client, an on-path one knows and alters everything
  but breaks neither the signature nor the MAC.
\<close>

section \<open>The network\<close>

record environment =
  env_hmac :: mac
  env_ecdsa :: verifier
  env_issuer :: nonce_issuer
  env_mode :: credential_mode
  env_fill :: csprng
  env_send_error :: "nat \<Rightarrow> string option"
  env_server :: socket_addr
  env_deadline :: nat
  env_signer :: stun_signer

text \<open>A datagram served: the source it showed, the server's clock, the request and the reply.\<close>

type_synonym service = "socket_addr \<times> u64 \<times> bytes \<times> bytes"

record world =
  client :: client_state
  sent :: "bytes list"
  signed :: "(transaction_id \<times> bytes) list"
  served :: "service list"

definition env_poll :: "environment \<Rightarrow> poll \<Rightarrow> client_state \<Rightarrow> io_event list \<times> client_state" where
  "env_poll env = client_poll (env_fill env) (env_send_error env) (env_server env) (env_deadline env) (env_signer env)"

definition env_signs :: "environment \<Rightarrow> poll \<Rightarrow> client_state \<Rightarrow> (transaction_id \<times> bytes) list" where
  "env_signs env = signs (env_fill env) (env_server env) (env_deadline env)"

definition env_reply :: "environment \<Rightarrow> socket_addr \<Rightarrow> u64 \<Rightarrow> bytes \<Rightarrow> bytes option option" where
  "env_reply env = server_reply (env_hmac env) (env_ecdsa env) (env_issuer env) (env_mode env)"

text \<open>The client has sent its identity request under the first transaction id it drew.\<close>

definition world_start :: "environment \<Rightarrow> transaction_id \<Rightarrow> world" where
  "world_start env t =
     \<lparr>client = Running Initial t 1, sent = [request_with t (identity_attr (spki_der (env_signer env)))],
      signed = [], served = []\<rparr>"

definition world_poll :: "environment \<Rightarrow> poll \<Rightarrow> world \<Rightarrow> world" where
  "world_poll env p w =
     (let (io, c) = env_poll env p (client w)
      in w\<lparr>client := c, sent := map fst (datagrams io) @ sent w, signed := env_signs env p (client w) @ signed w\<rparr>)"

inductive net_step ::
  "environment \<Rightarrow> (world \<Rightarrow> socket_addr \<Rightarrow> bytes \<Rightarrow> bool) \<Rightarrow> (world \<Rightarrow> recv \<Rightarrow> bool) \<Rightarrow> world \<Rightarrow> world \<Rightarrow> bool"
  for env may_serve may_deliver where
  serve: "may_serve w src d \<Longrightarrow> env_reply env src now d = Some (Some r) \<Longrightarrow>
    net_step env may_serve may_deliver w (w\<lparr>served := (src, now, d, r) # served w\<rparr>)"
| poll: "may_deliver w outcome \<Longrightarrow> net_step env may_serve may_deliver w (world_poll env (now, outcome) w)"

inductive_cases net_stepE: "net_step env may_serve may_deliver w w'"

inductive net_reach ::
  "environment \<Rightarrow> (world \<Rightarrow> socket_addr \<Rightarrow> bytes \<Rightarrow> bool) \<Rightarrow> (world \<Rightarrow> recv \<Rightarrow> bool) \<Rightarrow> world \<Rightarrow> bool"
  for env may_serve may_deliver where
  start: "new_transaction_id (env_fill env) 0 = Some t \<Longrightarrow> net_reach env may_serve may_deliver (world_start env t)"
| step: "net_reach env may_serve may_deliver w \<Longrightarrow> net_step env may_serve may_deliver w w' \<Longrightarrow>
    net_reach env may_serve may_deliver w'"

lemma net_reach_serve:
  "net_reach env may_serve may_deliver w \<Longrightarrow> may_serve w src d \<Longrightarrow> env_reply env src now d = Some (Some r) \<Longrightarrow>
   net_reach env may_serve may_deliver (w\<lparr>served := (src, now, d, r) # served w\<rparr>)"
  by (rule net_reach.step [OF _ net_step.serve])

lemma net_reach_poll:
  "net_reach env may_serve may_deliver w \<Longrightarrow> may_deliver w outcome \<Longrightarrow>
   net_reach env may_serve may_deliver (world_poll env (now, outcome) w)"
  by (rule net_reach.step [OF _ net_step.poll])

section \<open>An invariant rule\<close>

text \<open>What one needs to show for a property to hold of every world the network can reach.\<close>

locale net_invariant =
  fixes env :: environment and may_serve :: "world \<Rightarrow> socket_addr \<Rightarrow> bytes \<Rightarrow> bool"
    and may_deliver :: "world \<Rightarrow> recv \<Rightarrow> bool" and inv :: "world \<Rightarrow> bool"
  assumes inv_start: "new_transaction_id (env_fill env) 0 = Some t \<Longrightarrow> inv (world_start env t)"
    and inv_serve: "inv w \<Longrightarrow> may_serve w src d \<Longrightarrow> env_reply env src now d = Some (Some r) \<Longrightarrow>
      inv (w\<lparr>served := (src, now, d, r) # served w\<rparr>)"
    and inv_poll: "inv w \<Longrightarrow> may_deliver w outcome \<Longrightarrow> inv (world_poll env (clock, outcome) w)"
begin

lemma reach_inv: "net_reach env may_serve may_deliver w \<Longrightarrow> inv w"
proof (induction rule: net_reach.induct)
  case (step w w')
  from step.hyps(2) step.IH show ?case by cases (auto intro: inv_serve inv_poll)
qed (rule inv_start)

end

text \<open>The bookkeeping that holds under every attacker.\<close>

definition world_inv :: "environment \<Rightarrow> world \<Rightarrow> bool" where
  "world_inv env w \<longleftrightarrow>
     client_inv (env_fill env) (client w)
     \<and> (\<forall>(t, n) \<in> set (signed w). length n \<le> 512 \<and> (\<exists>j. 0 < j \<and> j < 3 \<and> new_transaction_id (env_fill env) j = Some t))
     \<and> (\<forall>(src, now, d, r) \<in> set (served w). env_reply env src now d = Some (Some r))"

lemma world_poll_simps [simp]:
  "client (world_poll env p w) = snd (env_poll env p (client w))"
  "served (world_poll env p w) = served w"
  "signed (world_poll env p w) = env_signs env p (client w) @ signed w"
  by (simp_all add: world_poll_def case_prod_beta Let_def)

lemma world_start_simps [simp]:
  "client (world_start env t) = Running Initial t 1" "served (world_start env t) = []"
  "signed (world_start env t) = []"
  by (simp_all add: world_start_def)

interpretation bookkeeping: net_invariant env may_serve may_deliver "world_inv env" for env may_serve may_deliver
proof
  fix t
  assume "new_transaction_id (env_fill env) 0 = Some t"
  then show "world_inv env (world_start env t)" by (simp add: world_inv_def drew_def)
next
  fix w src d now r
  assume "world_inv env w" and "env_reply env src now d = Some (Some r)"
  then show "world_inv env (w\<lparr>served := (src, now, d, r) # served w\<rparr>)" by (simp add: world_inv_def)
next
  fix w outcome clock
  assume inv: "world_inv env w"
  then have "client_inv (env_fill env) (client w)" by (simp add: world_inv_def)
  then show "world_inv env (world_poll env (clock, outcome) w)"
    using inv client_poll_inv signs_drew signs_nonce_length
    by (fastforce simp: world_inv_def env_poll_def env_signs_def)
qed

text \<open>The client of every reachable world has run the code's exchange on the turns it was given, whatever
  was interleaved with them.\<close>

definition env_polls :: "environment \<Rightarrow> poll list \<Rightarrow> client_state \<Rightarrow> io_event list \<times> client_state" where
  "env_polls env =
     client_polls (env_fill env) (env_send_error env) (env_server env) (env_deadline env) (env_signer env)"

lemma env_polls_snoc: "snd (env_polls env (ps @ [p]) c) = snd (env_poll env p (snd (env_polls env ps c)))"
  by (simp add: env_polls_def env_poll_def client_polls_append case_prod_beta Let_def)

lemma reached_by_polls:
  "net_reach env may_serve may_deliver w \<Longrightarrow>
   \<exists>t ps. new_transaction_id (env_fill env) 0 = Some t \<and> client w = snd (env_polls env ps (Running Initial t 1))"
proof (induction rule: net_reach.induct)
  case (start t)
  have "client (world_start env t) = snd (env_polls env [] (Running Initial t 1))" by (simp add: env_polls_def)
  with start show ?case by blast
next
  case (step w w')
  then obtain t ps where t: "new_transaction_id (env_fill env) 0 = Some t"
    and c: "client w = snd (env_polls env ps (Running Initial t 1))" by blast
  from step.hyps(2) show ?case
  proof cases
    case serve
    with t c show ?thesis by auto
  next
    case (poll outcome now)
    then have "client w' = snd (env_polls env (ps @ [(now, outcome)]) (Running Initial t 1))"
      by (simp add: c env_polls_snoc)
    with t show ?thesis by blast
  qed
qed

lemma reached_by_exchange:
  assumes "net_reach env may_serve may_deliver w" and "is_valid_spki_der (spki_der (env_signer env))"
    and "env_send_error env 0 = None" and "env_deadline env = start + timeout"
  shows "\<exists>polls. client_result (client w) = snd (query_reflexive_address_signed debug (env_fill env) (env_send_error env)
      start (env_server env) timeout (env_signer env) polls)"
proof -
  obtain t ps where "new_transaction_id (env_fill env) 0 = Some t"
    and c: "client w = snd (env_polls env ps (Running Initial t 1))"
    using reached_by_polls [OF assms(1)] by blast
  from exchange_turns [where send_error = "env_send_error env", OF assms(2) this(1) assms(3), of debug start "env_server env" timeout ps] show ?thesis
    by (intro exI [of _ ps]) (simp add: c env_polls_def assms(4) case_prod_beta Let_def)
qed

section \<open>The off-path attacker\<close>

text \<open>A datagram whose id field is none of the client's three ids. What the attacker, and every other
  party, can make up: 96 random bits are not guessed.\<close>

definition foreign :: "environment \<Rightarrow> bytes \<Rightarrow> bool" where
  "foreign env d \<longleftrightarrow> (\<forall>t. drew (env_fill env) 3 t \<longrightarrow> take 12 (drop 8 d) \<noteq> txid_bytes t)"

text \<open>The server sees the client's own datagrams from the addresses \<open>mapped\<close> the path gives the client,
  and foreign datagrams from anywhere (spoofed sources included).\<close>

definition off_path_serve :: "environment \<Rightarrow> (socket_addr \<Rightarrow> bool) \<Rightarrow> world \<Rightarrow> socket_addr \<Rightarrow> bytes \<Rightarrow> bool" where
  "off_path_serve env mapped w src d \<longleftrightarrow> d \<in> set (sent w) \<and> mapped src \<or> foreign env d"

text \<open>The client sees, from the server's address, anything the server ever replied to anybody, and
  foreign datagrams; from other addresses anything at all.\<close>

definition off_path_deliver :: "environment \<Rightarrow> world \<Rightarrow> recv \<Rightarrow> bool" where
  "off_path_deliver env w outcome \<longleftrightarrow>
     (case outcome of
        Datagram d from \<Rightarrow> from = env_server env \<longrightarrow> d \<in> (\<lambda>(_, _, _, r). r) ` set (served w) \<or> foreign env d
      | _ \<Rightarrow> True)"

definition own_address :: "(socket_addr \<Rightarrow> bool) \<Rightarrow> socket_addr \<Rightarrow> bool" where
  "own_address mapped a \<longleftrightarrow> (\<exists>src. mapped src \<and> a = sock_new (fold_ip (sock_ip src)) (sock_port src))"

definition off_path_inv :: "environment \<Rightarrow> (socket_addr \<Rightarrow> bool) \<Rightarrow> world \<Rightarrow> bool" where
  "off_path_inv env mapped w \<longleftrightarrow>
     world_inv env w
     \<and> (\<forall>(src, now, d, r) \<in> set (served w). mapped src \<or> foreign env d)
     \<and> (\<forall>a. client w = Finished (Done (Inr a)) \<longrightarrow> own_address mapped a)"

lemma foreign_received [simp]: "foreign env (received d) \<longleftrightarrow> foreign env d"
  by (simp add: foreign_def received_def drop_take)

lemma off_path_poll_ok:
  assumes "hmac_sha256_output (env_hmac env)" and "off_path_inv env mapped w"
    and "off_path_deliver env w outcome" and "client (world_poll env (clock, outcome) w) = Finished (Done (Inr a))"
  shows "own_address mapped a"
proof (cases "client w = Finished (Done (Inr a))")
  case True
  with assms(2) show ?thesis by (simp add: off_path_inv_def)
next
  case False
  then obtain stg t k d where c: "client w = Running stg t k" and o: "outcome = Datagram d (env_server env)"
    and ok: "parse_binding_response (received d) (Some t) = Some (Inr a)"
    using client_poll_ok [OF assms(4) [simplified, unfolded env_poll_def] False] by auto
  have "client_inv (env_fill env) (client w)" using assms(2) by (simp add: off_path_inv_def world_inv_def)
  then have own: "drew (env_fill env) 3 t" by (force simp: c drew_def)
  have "\<not> foreign env (received d)" using parse_ok_id [OF ok] own by (auto simp: foreign_def)
  then obtain src now q where s: "(src, now, q, d) \<in> set (served w)"
    using assms(3) by (auto simp: off_path_deliver_def o)
  then have r: "env_reply env src now q = Some (Some d)" and q: "mapped src \<or> foreign env q"
    using assms(2) by (auto simp: off_path_inv_def world_inv_def)
  have "a = sock_new (fold_ip (sock_ip src)) (sock_port src) \<and> take 12 (drop 8 q) = txid_bytes t"
    using success_answers_request [OF assms(1) r [unfolded env_reply_def]] ok reply_received [OF assms(1) r [unfolded env_reply_def]] by simp
  then show ?thesis using q own by (auto simp: own_address_def foreign_def)
qed

lemma off_path_invariant:
  assumes "hmac_sha256_output (env_hmac env)"
  shows "net_invariant env (off_path_serve env mapped) (off_path_deliver env) (off_path_inv env mapped)"
proof
  fix t
  assume "new_transaction_id (env_fill env) 0 = Some t"
  then show "off_path_inv env mapped (world_start env t)"
    using bookkeeping.inv_start by (simp add: off_path_inv_def)
next
  fix w src d now r
  assume "off_path_inv env mapped w" and "off_path_serve env mapped w src d" and "env_reply env src now d = Some (Some r)"
  then show "off_path_inv env mapped (w\<lparr>served := (src, now, d, r) # served w\<rparr>)"
    using bookkeeping.inv_serve [of env w "\<lambda>_ _ _. True"] by (auto simp: off_path_inv_def off_path_serve_def)
next
  fix w outcome clock
  assume inv: "off_path_inv env mapped w" and may: "off_path_deliver env w outcome"
  have "world_inv env (world_poll env (clock, outcome) w)"
    using bookkeeping.inv_poll [of env w "\<lambda>_ _. True"] inv by (simp add: off_path_inv_def)
  then show "off_path_inv env mapped (world_poll env (clock, outcome) w)"
    using inv off_path_poll_ok [OF assms inv may] by (auto simp: off_path_inv_def)
qed

section \<open>The on-path attacker\<close>

text \<open>A nonce went out: some served request was answered by a challenge that carries it.\<close>

definition issued :: "environment \<Rightarrow> world \<Rightarrow> socket_addr \<Rightarrow> u64 \<Rightarrow> bool" where
  "issued env w src now \<longleftrightarrow>
     (\<exists>d r t c raw. (src, now, d, r) \<in> set (served w)
        \<and> issue (env_hmac env) (env_issuer env) src now = Some raw \<and> encode_challenge t c (Some raw) = Some r)"

text \<open>What the signature scheme promises: one that verifies under the client's key is on a message the
  client signed. The client signs one message per turn, for the id and nonce of that turn.\<close>

definition unforged :: "environment \<Rightarrow> world \<Rightarrow> bytes \<Rightarrow> bool" where
  "unforged env w d \<longleftrightarrow>
     (\<forall>t n sig. classify_request d = Some (Inr (t, Signed (spki_der (env_signer env)) n sig))
        \<longrightarrow> env_ecdsa env (drop 26 (spki_der (env_signer env))) (signing_message t n (spki_der (env_signer env))) sig
        \<longrightarrow> (\<exists>(u, m) \<in> set (signed w).
              signing_message t n (spki_der (env_signer env)) = signing_message u m (spki_der (env_signer env))))"

text \<open>What the MAC promises: a tag that verifies is on a message the issuer computed it over.\<close>

definition mac_unforged :: "environment \<Rightarrow> world \<Rightarrow> bytes \<Rightarrow> bool" where
  "mac_unforged env w d \<longleftrightarrow>
     (\<forall>b src n. (\<exists>t spki sig. classify_request d = Some (Inr (t, Signed spki n sig)))
        \<longrightarrow> base64url_decode n = Some (genuine (env_hmac env) (env_issuer env) b src)
        \<longrightarrow> (\<exists>src' now'. issued env w src' now' \<and> nonce_message b src = nonce_message (bucket_of now') src'))"

text \<open>The attacker feeds the server anything within these promises, and the client anything.\<close>

definition on_path_serve :: "environment \<Rightarrow> world \<Rightarrow> socket_addr \<Rightarrow> bytes \<Rightarrow> bool" where
  "on_path_serve env w src d \<longleftrightarrow> unforged env w d \<and> mac_unforged env w d"

definition on_path_deliver :: "world \<Rightarrow> recv \<Rightarrow> bool" where
  "on_path_deliver w outcome \<longleftrightarrow> True"

text \<open>What an answer to a request under the client's key stands for.\<close>

definition proven :: "environment \<Rightarrow> world \<Rightarrow> socket_addr \<Rightarrow> u64 \<Rightarrow> transaction_id \<Rightarrow> bytes \<Rightarrow> bool" where
  "proven env w src now t n \<longleftrightarrow>
     (t, n) \<in> set (signed w)
     \<and> (\<exists>src' now'. issued env w src' now'
          \<and> base64url_decode n = Some (genuine (env_hmac env) (env_issuer env) (bucket_of now') src')
          \<and> fold_ip (sock_ip src') = fold_ip (sock_ip src) \<and> sock_port src' = sock_port src
          \<and> (bucket_of now' = bucket_of now \<or> bucket_of now' + 1 = bucket_of now))"

definition on_path_inv :: "environment \<Rightarrow> world \<Rightarrow> bool" where
  "on_path_inv env w \<longleftrightarrow>
     world_inv env w
     \<and> (\<forall>(src, now, d, r) \<in> set (served w). \<forall>t n sig e a.
          classify_request d = Some (Inr (t, Signed (spki_der (env_signer env)) n sig))
          \<longrightarrow> parse_binding_response r e = Some (Inr a) \<longrightarrow> proven env w src now t n)"

text \<open>Nothing a world has recorded is ever lost.\<close>

lemma issued_mono: "issued env w src now \<Longrightarrow> set (served w) \<subseteq> set (served w') \<Longrightarrow> issued env w' src now"
  unfolding issued_def by blast

lemma proven_mono:
  "proven env w src now t n \<Longrightarrow> set (served w) \<subseteq> set (served w') \<Longrightarrow> set (signed w) \<subseteq> set (signed w') \<Longrightarrow>
   proven env w' src now t n"
  unfolding proven_def using issued_mono by blast

text \<open>An attribute of a classified request fits its length field.\<close>

lemma signed_nonce_length:
  assumes "classify_request d = Some (Inr (t, Signed spki n sig))"
  shows "length n < 2 ^ 16"
proof -
  obtain len rest pre where "values_of ATTR_NONCE pre = [n]"
    and area: "tlvs (take (unat (len :: u16)) rest) = pre @ [Attr ATTR_DIG_SIGNATURE (CREDENTIAL_VERSION # sig)]"
    using signed_conv assms by blast
  then have "Attr ATTR_NONCE n \<in> set (tlvs (take (unat len) rest))"
    using values_of_member [of n ATTR_NONCE pre] by simp
  from tlvs_member_length [OF this] have "length n \<le> unat len" by simp
  then show ?thesis using unsigned_less [of len, where 'a = nat] by simp
qed

lemma served_proven:
  assumes "hmac_sha256_output (env_hmac env)" and "on_path_inv env w" and "on_path_serve env w src d"
    and "env_reply env src now d = Some (Some r)"
    and "classify_request d = Some (Inr (t, Signed (spki_der (env_signer env)) n sig))"
    and "parse_binding_response r e = Some (Inr a)"
  shows "proven env w src now t n"
proof -
  obtain b where ecdsa: "env_ecdsa env (drop 26 (spki_der (env_signer env)))
        (signing_message t n (spki_der (env_signer env))) sig"
    and n: "base64url_decode n = Some (genuine (env_hmac env) (env_issuer env) b src)"
    and b: "b = bucket_of now \<or> b + 1 = bucket_of now"
    using server_answer [OF assms(1) assms(4) [unfolded env_reply_def] assms(6)] assms(5) by auto
  obtain u m where um: "(u, m) \<in> set (signed w)"
      "signing_message t n (spki_der (env_signer env)) = signing_message u m (spki_der (env_signer env))"
    using assms(3,5) ecdsa by (force simp: on_path_serve_def unforged_def)
  have "length m < 2 ^ 16" using um(1) assms(2) by (force simp: on_path_inv_def world_inv_def)
  then have tm: "u = t" "m = n"
    using signing_message_inject [OF signed_nonce_length [OF assms(5)], of m t _ u] um(2) by simp_all
  obtain src' now' where i: "issued env w src' now'" "nonce_message b src = nonce_message (bucket_of now') src'"
    using assms(3,5) n by (force simp: on_path_serve_def mac_unforged_def)
  then have same: "b = bucket_of now'" "fold_ip (sock_ip src') = fold_ip (sock_ip src)" "sock_port src' = sock_port src"
    by (simp_all add: nonce_message_inject)
  have "genuine (env_hmac env) (env_issuer env) b src = genuine (env_hmac env) (env_issuer env) (bucket_of now') src'"
    by (simp add: genuine_def same(1) i(2) [unfolded same(1)])
  with n have "base64url_decode n = Some (genuine (env_hmac env) (env_issuer env) (bucket_of now') src')" by simp
  then show ?thesis
    using um(1) tm i(1) b same unfolding proven_def
    by (intro conjI exI [of _ src'] exI [of _ now']) simp_all
qed

lemma on_path_invariant:
  assumes "hmac_sha256_output (env_hmac env)"
  shows "net_invariant env (on_path_serve env) on_path_deliver (on_path_inv env)"
proof
  fix t
  assume "new_transaction_id (env_fill env) 0 = Some t"
  then show "on_path_inv env (world_start env t)"
    using bookkeeping.inv_start by (simp add: on_path_inv_def)
next
  fix w src d now r
  assume inv: "on_path_inv env w" and may: "on_path_serve env w src d" and r: "env_reply env src now d = Some (Some r)"
  let ?w = "w\<lparr>served := (src, now, d, r) # served w\<rparr>"
  have "world_inv env ?w"
    using bookkeeping.inv_serve [of env w "\<lambda>_ _ _. True"] inv r by (simp add: on_path_inv_def)
  moreover have "proven env w src' now' t n \<Longrightarrow> proven env ?w src' now' t n" for src' now' t n
    by (rule proven_mono) auto
  ultimately show "on_path_inv env ?w"
    using inv served_proven [OF assms inv may r] unfolding on_path_inv_def by fastforce
next
  fix w outcome clock
  assume inv: "on_path_inv env w"
  let ?w = "world_poll env (clock, outcome) w"
  have "world_inv env ?w"
    using bookkeeping.inv_poll [of env w "\<lambda>_ _. True"] inv by (simp add: on_path_inv_def)
  moreover have "proven env w src' now' t n \<Longrightarrow> proven env ?w src' now' t n" for src' now' t n
    by (rule proven_mono) auto
  ultimately show "on_path_inv env ?w"
    using inv unfolding on_path_inv_def by fastforce
qed

section \<open>A run\<close>

text \<open>A MAC that keeps apart the sources of one exchange: the last 28 bytes, or nothing.\<close>

definition path_hmac :: mac where
  "path_hmac key msg = (if length msg = 28 then rev msg @ replicate 4 0 else replicate 32 0)"

lemma path_hmac_output [simp]: "hmac_sha256_output path_hmac"
  by (simp add: hmac_sha256_output_def path_hmac_def)

lemma nonce_message_parts:
  "take 12 (nonce_message b src) = take 12 NONCE_DOMAIN_TAG"
  "length (nonce_message b src) = (case fold_ip (sock_ip src) of IpV4 _ \<Rightarrow> 28 | IpV6 _ \<Rightarrow> 40)"
  "nonce_message b src ! 12 = 0x63"
  by (auto simp: nonce_message_def Let_def domain_tags nth_append split: ip_addr.split)
    (simp_all add: NONCE_DOMAIN_TAG_def as_bytes_def)

lemma path_hmac_separates:
  assumes "fold_ip (sock_ip src') = IpV4 v4"
    and "genuine path_hmac issuer b src = genuine path_hmac issuer b' src'"
  shows "nonce_message b src = nonce_message b' src'"
proof -
  let ?m = "nonce_message b src" and ?m' = "nonce_message b' src'"
  have "b = b' \<and> take 16 (path_hmac (secret issuer) ?m) = take 16 (path_hmac (secret issuer) ?m')"
    using assms(2) by (auto simp: genuine_def)
  then have tags: "take 16 (path_hmac (secret issuer) ?m) = take 16 (path_hmac (secret issuer) ?m')" by (rule conjunct2)
  have l': "length ?m' = 28" by (simp add: nonce_message_parts(2) assms(1))
  have "length ?m = 28"
  proof (rule ccontr)
    assume "length ?m \<noteq> 28"
    then have "rev (drop 12 ?m') = replicate 16 0"
      using tags l' by (simp add: path_hmac_def take_rev)
    then have "drop 12 ?m' = replicate 16 0" by (metis rev_replicate rev_swap)
    then have "drop 12 ?m' ! 0 = 0" by simp
    then show False using nonce_message_parts(3) [of b' src'] by (simp add: nonce_message_parts(2) assms(1))
  qed
  then have "rev (drop 12 ?m) = rev (drop 12 ?m')"
    using tags l' by (simp add: path_hmac_def take_rev)
  then show ?thesis by (metis append_take_drop_id nonce_message_parts(1) rev_is_rev_conv)
qed

text \<open>A world in which the client has its address: the network can do what the theorems are about.\<close>

definition example_env :: environment where
  "example_env = \<lparr>env_hmac = path_hmac, env_ecdsa = example_ecdsa, env_issuer = from_secret (replicate 32 5),
     env_mode = Required, env_fill = example_fill, env_send_error = (\<lambda>_. None), env_server = example_server,
     env_deadline = 100, env_signer = example_signer\<rparr>"

lemma example_env_simps [simp]:
  "env_hmac example_env = path_hmac" "env_ecdsa example_env = example_ecdsa"
  "env_issuer example_env = from_secret (replicate 32 5)" "env_mode example_env = Required"
  "env_fill example_env = example_fill" "env_send_error example_env = (\<lambda>_. None)"
  "env_server example_env = example_server" "env_deadline example_env = 100" "env_signer example_env = example_signer"
  by (simp_all add: example_env_def)

definition example_nonce :: bytes where
  "example_nonce = as_bytes (base64url_encode (genuine path_hmac (from_secret (replicate 32 5)) (bucket_of 1000) example_mapped))"

text \<open>The exchange of \<open>handshake_end_to_end\<close>, as steps of the network.\<close>

lemma example_services:
  obtains r0 r1 where
    "env_reply example_env example_mapped 1000 (request_with (example_id 0) (identity_attr example_spki)) = Some (Some r0)"
    "encode_challenge (example_id 0) 401 (Some (genuine path_hmac (from_secret (replicate 32 5)) (bucket_of 1000) example_mapped)) = Some r0"
    "env_reply example_env example_mapped 1050 (encode_signed_request (example_id 1) example_nonce example_signer) = Some (Some r1)"
    "r1 = encode_binding_success (example_id 1) example_mapped"
proof -
  have [simp]: "spki_der example_signer = example_spki" by (simp add: example_signer_def)
  let ?raw = "genuine path_hmac (from_secret (replicate 32 5)) (bucket_of 1000) example_mapped"
  obtain r0 where r0: "encode_challenge (example_id 0) 401 (Some ?raw) = Some r0"
    using encode_challenge_some by blast
  note issue = issue_eq [OF path_hmac_output, of "from_secret (replicate 32 5)" example_mapped 1000]
  have len: "length ?raw = 20" by (simp add: genuine_length)
  then have n: "length example_nonce < 65000" by (simp add: example_nonce_def length_base64url_encode)
  have fresh: "check_nonce path_hmac (from_secret (replicate 32 5)) example_nonce example_mapped 1050 = Some Fresh"
    unfolding example_nonce_def
    by (rule nonce_fresh_within_minute [OF path_hmac_output issue]) (simp_all add: word_le_nat_alt)
  show thesis
  proof (rule that [OF _ r0 _ refl])
    show "env_reply example_env example_mapped 1000 (request_with (example_id 0) (identity_attr example_spki)) = Some (Some r0)"
      using server_reply_identity [OF classify_identity_request [OF example_signer_valid(1)] issue] r0
      by (simp add: env_reply_def)
    show "env_reply example_env example_mapped 1050 (encode_signed_request (example_id 1) example_nonce example_signer)
        = Some (Some (encode_binding_success (example_id 1) example_mapped))"
      unfolding env_reply_def encode_signed_eq
      using server_reply_signed [OF classify_signed_request [OF example_signer_valid n]] example_signer_valid(1) fresh
        example_ecdsa_signer
      by (simp add: signature_valid_def)
  qed
qed

lemma example_turns:
  assumes "encode_challenge (example_id 0) 401 (Some (genuine path_hmac (from_secret (replicate 32 5)) (bucket_of 1000) example_mapped)) = Some r0"
  shows "env_poll example_env (10, Datagram r0 example_server) (Running Initial (example_id 0) 1)
      = ([Wait 90, SendTo (encode_signed_request (example_id 1) example_nonce example_signer) example_server],
         Running AfterFirstChallenge (example_id 1) 2)"
    and "env_signs example_env (10, Datagram r0 example_server) (Running Initial (example_id 0) 1)
      = [(example_id 1, example_nonce)]"
    and "env_poll example_env (20, Datagram (encode_binding_success (example_id 1) example_mapped) example_server)
        (Running AfterFirstChallenge (example_id 1) 2)
      = ([Wait 80], Finished (Done (Inr example_mapped)))"
proof -
  have len: "length (genuine path_hmac (from_secret (replicate 32 5)) (bucket_of 1000) example_mapped) = NONCE_LEN"
    by (simp add: genuine_length NONCE_LEN_def)
  note turn = act_challenge [OF len assms] handle_challenge_def wire_consts example_nonce_def [symmetric]
  show "env_poll example_env (10, Datagram r0 example_server) (Running Initial (example_id 0) 1)
      = ([Wait 90, SendTo (encode_signed_request (example_id 1) example_nonce example_signer) example_server],
         Running AfterFirstChallenge (example_id 1) 2)"
    by (simp add: env_poll_def turn client_turn_def send_def)
  show "env_signs example_env (10, Datagram r0 example_server) (Running Initial (example_id 0) 1)
      = [(example_id 1, example_nonce)]"
    by (simp add: env_signs_def turn)
  show "env_poll example_env (20, Datagram (encode_binding_success (example_id 1) example_mapped) example_server)
        (Running AfterFirstChallenge (example_id 1) 2)
      = ([Wait 80], Finished (Done (Inr example_mapped)))"
    using act_success [OF example_mapped_usable, of example_server AfterFirstChallenge "example_id 1"]
    by (simp add: env_poll_def client_turn_def)
qed

text \<open>The four steps, under any attacker that lets them through.\<close>

lemma example_run:
  assumes "\<And>w. request_with (example_id 0) (identity_attr example_spki) \<in> set (sent w) \<Longrightarrow>
      may_serve w example_mapped (request_with (example_id 0) (identity_attr example_spki))"
    and "\<And>w. encode_signed_request (example_id 1) example_nonce example_signer \<in> set (sent w) \<Longrightarrow>
      (example_id 1, example_nonce) \<in> set (signed w) \<Longrightarrow> issued example_env w example_mapped 1000 \<Longrightarrow>
      may_serve w example_mapped (encode_signed_request (example_id 1) example_nonce example_signer)"
    and "\<And>w d. d \<in> (\<lambda>(_, _, _, r). r) ` set (served w) \<Longrightarrow> may_deliver w (Datagram d example_server)"
  obtains w where "net_reach example_env may_serve may_deliver w"
    "client w = Finished (Done (Inr example_mapped))"
    "(example_mapped, 1050, encode_signed_request (example_id 1) example_nonce example_signer,
      encode_binding_success (example_id 1) example_mapped) \<in> set (served w)"
proof -
  let ?d0 = "request_with (example_id 0) (identity_attr example_spki)"
  let ?d1 = "encode_signed_request (example_id 1) example_nonce example_signer"
  let ?r1 = "encode_binding_success (example_id 1) example_mapped"
  obtain r0 where r0: "env_reply example_env example_mapped 1000 ?d0 = Some (Some r0)"
    and c0: "encode_challenge (example_id 0) 401
      (Some (genuine path_hmac (from_secret (replicate 32 5)) (bucket_of 1000) example_mapped)) = Some r0"
    and r1: "env_reply example_env example_mapped 1050 ?d1 = Some (Some ?r1)"
    using example_services by metis
  let ?w0 = "world_start example_env (example_id 0)"
  let ?w1 = "?w0\<lparr>served := (example_mapped, 1000, ?d0, r0) # served ?w0\<rparr>"
  let ?w2 = "world_poll example_env (10, Datagram r0 example_server) ?w1"
  let ?w3 = "?w2\<lparr>served := (example_mapped, 1050, ?d1, ?r1) # served ?w2\<rparr>"
  let ?w4 = "world_poll example_env (20, Datagram ?r1 example_server) ?w3"
  note turns = example_turns [OF c0]
  have s0: "?d0 \<in> set (sent ?w0)" by (simp add: world_start_def example_signer_def)
  have s2: "?d1 \<in> set (sent ?w2)" by (simp add: world_poll_def turns del: One_nat_def)
  have "issued example_env ?w2 example_mapped 1000"
    using c0 by (fastforce simp: issued_def issue_eq [OF path_hmac_output])
  then have serve1: "may_serve ?w2 example_mapped ?d1"
    by (rule assms(2) [OF s2, rotated]) (simp add: turns del: One_nat_def)
  have "net_reach example_env may_serve may_deliver ?w0" by (rule net_reach.start) simp
  then have "net_reach example_env may_serve may_deliver ?w1"
    by (rule net_reach_serve) (rule assms(1) [OF s0], rule r0)
  then have "net_reach example_env may_serve may_deliver ?w2"
    by (rule net_reach_poll) (rule assms(3), simp)
  then have "net_reach example_env may_serve may_deliver ?w3"
    by (rule net_reach_serve) (rule serve1, rule r1)
  then have "net_reach example_env may_serve may_deliver ?w4"
    by (rule net_reach_poll) (rule assms(3), simp)
  then show thesis by (rule that) (simp_all add: turns del: One_nat_def)
qed

section \<open>Properties\<close>

text \<open>C1: what an off-path attacker cannot do. However datagrams are lost, duplicated, delayed and
  reordered, whatever the attacker and everybody else send to the server (from spoofed sources too) and
  to the client (from the server's address too), as long as they do not guess one of the client's
  three transaction ids: an address the signed exchange returns is the folded form of an address the server
  really saw the client's own datagrams come from.\<close>
theorem off_path_address_is_own:
  assumes "hmac_sha256_output (env_hmac env)"
    and "net_reach env (off_path_serve env mapped) (off_path_deliver env) w"
    and "client w = Finished (Done (Inr a))"
  shows "\<exists>src. mapped src \<and> a = sock_new (fold_ip (sock_ip src)) (sock_port src)"
  using net_invariant.reach_inv [OF off_path_invariant [OF assms(1)] assms(2)] assms(3)
  by (simp add: off_path_inv_def own_address_def)

theorem off_path_address_is_own_witness:
  "\<exists>w :: world. client w = Finished (Done (Inr example_mapped))
     \<and> (\<exists>src. src = example_mapped \<and> example_mapped = sock_new (fold_ip (sock_ip src)) (sock_port src))"
proof -
  obtain w where w: "net_reach example_env (off_path_serve example_env (\<lambda>src. src = example_mapped))
      (off_path_deliver example_env) w" "client w = Finished (Done (Inr example_mapped))"
    by (rule example_run [of "off_path_serve example_env (\<lambda>src. src = example_mapped)" "off_path_deliver example_env"])
      (auto simp: off_path_serve_def off_path_deliver_def)
  have "hmac_sha256_output (env_hmac example_env)" by simp
  from off_path_address_is_own [OF this w] w(2) show ?thesis by blast
qed

text \<open>C2: what an answer to a signed request proves, against an attacker who controls the network
  and cannot forge the signature or the MAC. If the server ever gave an address to a request carrying
  the client's key, then in that world the client signed for this very transaction id and nonce
  (possession of the key), the nonce is one the server issued, in a challenge to the same folded
  source (return routability), in the minute of the answer or the one before (freshness), and the
  answer names that source.\<close>
theorem on_path_answer_proves:
  assumes "hmac_sha256_output (env_hmac env)"
    and "net_reach env (on_path_serve env) on_path_deliver w"
    and "(src, now, d, r) \<in> set (served w)"
    and "classify_request d = Some (Inr (t, Signed (spki_der (env_signer env)) n sig))"
    and "parse_binding_response r e = Some (Inr a)"
  shows "(t, n) \<in> set (signed w) \<and> (\<exists>j. 0 < j \<and> j < 3 \<and> new_transaction_id (env_fill env) j = Some t)
    \<and> (\<exists>src' now'. issued env w src' now'
         \<and> base64url_decode n = Some (genuine (env_hmac env) (env_issuer env) (bucket_of now') src')
         \<and> fold_ip (sock_ip src') = fold_ip (sock_ip src) \<and> sock_port src' = sock_port src
         \<and> (bucket_of now' = bucket_of now \<or> bucket_of now' + 1 = bucket_of now))
    \<and> a = sock_new (fold_ip (sock_ip src)) (sock_port src)"
proof -
  have inv: "on_path_inv env w"
    by (rule net_invariant.reach_inv [OF on_path_invariant [OF assms(1)] assms(2)])
  then have p: "proven env w src now t n" and w: "world_inv env w"
    using assms(3-5) unfolding on_path_inv_def by fastforce+
  then have "env_reply env src now d = Some (Some r)" using assms(3) by (auto simp: world_inv_def)
  then have "a = sock_new (fold_ip (sock_ip src)) (sock_port src)"
    using server_answer [OF assms(1) _ assms(5)] unfolding env_reply_def by blast
  with p w show ?thesis unfolding proven_def world_inv_def by blast
qed

theorem on_path_answer_proves_witness:
  "\<exists>w :: world. (example_id 1, example_nonce) \<in> set (signed w) \<and> (\<exists>src' now'. issued example_env w src' now')"
proof -
  let ?d1 = "encode_signed_request (example_id 1) example_nonce example_signer"
  have "length (genuine path_hmac (from_secret (replicate 32 5)) (bucket_of 1000) example_mapped) = 20"
    by (simp add: genuine_length)
  then have "length example_nonce < 65000" by (simp add: example_nonce_def length_base64url_encode)
  note d1 = classify_signed_request [OF example_signer_valid this, of "example_id 1", folded encode_signed_eq]
  have d0: "classify_request (request_with (example_id 0) (identity_attr example_spki)) = Some (Inr (example_id 0, Identity example_spki))"
    using classify_identity_request [OF example_signer_valid(1)] by (simp add: example_signer_def)
  have mac: "\<exists>src' now'. issued example_env w src' now' \<and> nonce_message b src = nonce_message (bucket_of now') src'"
    if "issued example_env w example_mapped 1000"
      and "base64url_decode example_nonce = Some (genuine path_hmac (from_secret (replicate 32 5)) b src)" for w b src
    using that path_hmac_separates [of example_mapped "Ipv4 8 8 4 4" "from_secret (replicate 32 5)" b src "bucket_of 1000"]
    by (auto simp: example_nonce_def genuine_text_decodes)
  have serve0: "on_path_serve example_env w example_mapped (request_with (example_id 0) (identity_attr example_spki))" for w
    by (simp add: on_path_serve_def unforged_def mac_unforged_def d0)
  have serve1: "on_path_serve example_env w example_mapped ?d1"
    if "(example_id 1, example_nonce) \<in> set (signed w)" and "issued example_env w example_mapped 1000" for w
    using that(1) mac [OF that(2)] by (auto simp: on_path_serve_def unforged_def mac_unforged_def d1 simp del: One_nat_def)
  obtain w where w: "net_reach example_env (on_path_serve example_env) on_path_deliver w"
    "(example_mapped, 1050, ?d1, encode_binding_success (example_id 1) example_mapped) \<in> set (served w)"
    by (rule example_run [of "on_path_serve example_env" on_path_deliver])
      (simp_all add: serve0 serve1 on_path_deliver_def del: One_nat_def)
  have "hmac_sha256_output (env_hmac example_env)" by simp
  from on_path_answer_proves [OF this w, of "example_id 1" example_nonce _ "Some (example_id 1)"] d1 parse_encode_success
  show ?thesis by fastforce
qed

end
