(* ===== verification/LimitedNetwork.thy ===== *)
theory LimitedNetwork
  imports Network LimitedServer
begin

text \<open>
  The network of theory Network with the server of theory LimitedServer in it: every datagram the server
  takes passes the limiter of \<open>src/observe.rs\<close> first. Each step of this network is a step of the other
  one or changes nothing there, so what no attacker can do to a server that answers everybody, none can
  do to one that also refuses; and the limiter bounds what any run can make the server do in a second.
\<close>

section \<open>The network\<close>

text \<open>The world the client and the attacker are in, the limiter, when the server took a datagram (in
  milliseconds, the last one first), and the seconds in which it verified a signature.\<close>

record limited_world =
  base :: world
  limit :: observe_limiter
  taken :: "u64 list"
  verified :: "u64 list"

definition limited_start :: "environment \<Rightarrow> u32 \<Rightarrow> u32 \<Rightarrow> transaction_id \<Rightarrow> limited_world" where
  "limited_start env cap gcap t =
     \<lparr>base = world_start env t, limit = limiter_new cap gcap, taken = [], verified = []\<rparr>"

text \<open>The server of the environment takes a datagram; what it replies is sent.\<close>

definition env_limited :: "environment \<Rightarrow> (socket_addr \<Rightarrow> string) \<Rightarrow> orders \<Rightarrow> observe_limiter
    \<Rightarrow> socket_addr \<Rightarrow> u64 \<Rightarrow> bytes \<Rightarrow> (observe_limiter \<times> bytes option \<times> nat) option" where
  "env_limited env = limited_server (env_hmac env) (env_ecdsa env) (env_issuer env) (env_mode env)"

definition limited_take ::
  "observe_limiter \<Rightarrow> bytes option \<Rightarrow> nat \<Rightarrow> socket_addr \<Rightarrow> u64 \<Rightarrow> bytes \<Rightarrow> limited_world \<Rightarrow> limited_world" where
  "limited_take lim reply calls src now_ms d v =
     v\<lparr>base := (case reply of
           None \<Rightarrow> base v
         | Some r \<Rightarrow> (base v)\<lparr>served := (src, now_ms div 1000, d, r) # served (base v)\<rparr>),
       limit := lim,
       taken := now_ms # taken v,
       verified := replicate calls (now_ms div 1000) @ verified v\<rparr>"

inductive limited_step ::
  "environment \<Rightarrow> (socket_addr \<Rightarrow> string) \<Rightarrow> (world \<Rightarrow> socket_addr \<Rightarrow> bytes \<Rightarrow> bool) \<Rightarrow> (world \<Rightarrow> recv \<Rightarrow> bool)
   \<Rightarrow> limited_world \<Rightarrow> limited_world \<Rightarrow> bool"
  for env label may_serve may_deliver where
  take_one: "may_serve (base v) src d \<Longrightarrow> env_limited env label ords (limit v) src now_ms d = Some (lim, reply, calls) \<Longrightarrow>
    limited_step env label may_serve may_deliver v (limited_take lim reply calls src now_ms d v)"
| poll_one: "may_deliver (base v) outcome \<Longrightarrow>
    limited_step env label may_serve may_deliver v (v\<lparr>base := world_poll env (now, outcome) (base v)\<rparr>)"

inductive limited_reach ::
  "environment \<Rightarrow> (socket_addr \<Rightarrow> string) \<Rightarrow> u32 \<Rightarrow> u32 \<Rightarrow> (world \<Rightarrow> socket_addr \<Rightarrow> bytes \<Rightarrow> bool)
   \<Rightarrow> (world \<Rightarrow> recv \<Rightarrow> bool) \<Rightarrow> limited_world \<Rightarrow> bool"
  for env label cap gcap may_serve may_deliver where
  begin_one: "new_transaction_id (env_fill env) 0 = Some t \<Longrightarrow>
    limited_reach env label cap gcap may_serve may_deliver (limited_start env cap gcap t)"
| step_one: "limited_reach env label cap gcap may_serve may_deliver v \<Longrightarrow>
    limited_step env label may_serve may_deliver v v' \<Longrightarrow> limited_reach env label cap gcap may_serve may_deliver v'"

section \<open>The simulation\<close>

lemma limited_start_simps [simp]:
  "base (limited_start env cap gcap t) = world_start env t" "limit (limited_start env cap gcap t) = limiter_new cap gcap"
  "taken (limited_start env cap gcap t) = []" "verified (limited_start env cap gcap t) = []"
  by (simp_all add: limited_start_def)

lemma limited_take_simps [simp]:
  "base (limited_take lim None calls src now_ms d v) = base v"
  "base (limited_take lim (Some r) calls src now_ms d v)
     = (base v)\<lparr>served := (src, now_ms div 1000, d, r) # served (base v)\<rparr>"
  "limit (limited_take lim reply calls src now_ms d v) = lim"
  "taken (limited_take lim reply calls src now_ms d v) = now_ms # taken v"
  "verified (limited_take lim reply calls src now_ms d v) = replicate calls (now_ms div 1000) @ verified v"
  by (simp_all add: limited_take_def)

text \<open>What the server does with one datagram: a verification is paid for by a reply, and a reply by a
  grant of the limiter.\<close>

lemma env_limited_step:
  assumes "hmac_sha256_output (env_hmac env)"
    and "env_limited env label ords lim src now_ms d = Some (lim', reply, calls)"
  shows "calls \<le> of_bool (reply \<noteq> None)"
    and "lim' = lim \<and> reply = None
      \<or> lim' = fst (allow ords lim (label src) (sock_ip src) now_ms)
        \<and> (reply \<noteq> None \<longrightarrow> snd (allow ords lim (label src) (sock_ip src) now_ms))"
proof -
  have one: "serve_one (env_hmac env) (env_ecdsa env) (env_issuer env) (env_mode env) label lim (ords, src, now_ms, d)
      = (lim', reply, calls)"
    using assms(2) by (simp add: serve_one_def env_limited_def)
  from serve_one_step(1) [OF assms(1) one] show "calls \<le> of_bool (reply \<noteq> None)" by (cases reply) simp_all
  show "lim' = lim \<and> reply = None
      \<or> lim' = fst (allow ords lim (label src) (sock_ip src) now_ms)
        \<and> (reply \<noteq> None \<longrightarrow> snd (allow ords lim (label src) (sock_ip src) now_ms))"
    by (rule serve_one_step(2) [OF assms(1) one])
qed

text \<open>A step is a step without the limiter, or one that changes neither the client nor what was sent.\<close>

lemma limited_step_simulated:
  assumes "limited_step env label may_serve may_deliver v v'"
  shows "base v' = base v \<or> net_step env may_serve may_deliver (base v) (base v')"
  using assms
proof cases
  case (take_one src d ords now_ms lim reply calls)
  show ?thesis
  proof (cases reply)
    case (Some r)
    then have "env_reply env src (now_ms div 1000) d = Some (Some r)"
      using take_one(3) limited_reply_is_reply unfolding env_limited_def env_reply_def by blast
    with take_one(1,2) Some net_step.serve show ?thesis by simp
  qed (simp add: take_one(1))
qed (simp add: net_step.poll)

lemma limited_reach_simulated:
  "limited_reach env label cap gcap may_serve may_deliver v \<Longrightarrow> net_reach env may_serve may_deliver (base v)"
  by (induction rule: limited_reach.induct)
    (metis limited_start_simps(1) net_reach.start, metis limited_step_simulated net_reach.step)

lemma limited_reach_limiter:
  assumes "hmac_sha256_output (env_hmac env)" and "limited_reach env label cap gcap may_serve may_deliver v"
  shows "limiter_reach cap gcap (limit v)"
  using assms(2)
proof (induction rule: limited_reach.induct)
  case (step_one v v')
  from step_one.hyps(2) show ?case
  proof cases
    case (take_one src d ords now_ms lim reply calls)
    show ?thesis
      using env_limited_step(2) [OF assms(1) take_one(3)] step_one.IH
        limiter_reach.reach_allow [OF step_one.IH, of ords "label src" "sock_ip src" now_ms]
      by (auto simp: take_one(1))
  qed (simp add: step_one.IH)
qed (simp add: limiter_reach.reach_new)

text \<open>So what the two attackers of theory Network cannot do, they cannot do here.\<close>

lemma limited_off_path:
  assumes "hmac_sha256_output (env_hmac env)"
    and "limited_reach env label cap gcap (off_path_serve env mapped) (off_path_deliver env) v"
    and "client (base v) = Finished (Done (Inr a))"
  shows "own_address mapped a"
  using net_invariant.reach_inv [OF off_path_invariant [OF assms(1)] limited_reach_simulated [OF assms(2)]] assms(3)
  by (simp add: off_path_inv_def)

lemma limited_on_path:
  assumes "hmac_sha256_output (env_hmac env)"
    and "limited_reach env label cap gcap (on_path_serve env) on_path_deliver v"
    and "(src, now, d, r) \<in> set (served (base v))"
    and "classify_request d = Some (Inr (t, Signed (spki_der (env_signer env)) n sig))"
    and "parse_binding_response r e = Some (Inr a)"
  shows "proven env (base v) src now t n"
proof -
  have "on_path_inv env (base v)"
    by (rule net_invariant.reach_inv [OF on_path_invariant [OF assms(1)] limited_reach_simulated [OF assms(2)]])
  with assms(3-5) show ?thesis unfolding on_path_inv_def by fastforce
qed

section \<open>What a second can cost\<close>

definition replies_in :: "u64 \<Rightarrow> limited_world \<Rightarrow> nat" where
  "replies_in s v = length (filter (\<lambda>(_, now, _, _). now = s) (served (base v)))"

lemma replies_in_poll [simp]: "replies_in s (v\<lparr>base := world_poll env p (base v)\<rparr>) = replies_in s v"
  by (simp add: replies_in_def)

lemma replies_in_take [simp]:
  "replies_in s (limited_take lim reply calls src now_ms d v)
     = of_bool (reply \<noteq> None \<and> now_ms div 1000 = s) + replies_in s v"
  by (cases reply) (simp_all add: replies_in_def)

text \<open>A verification and its reply fall into the same second, whatever the clock does.\<close>

lemma verified_le_replies:
  assumes "hmac_sha256_output (env_hmac env)" and "limited_reach env label cap gcap may_serve may_deliver v"
  shows "count_list (verified v) s \<le> replies_in s v"
  using assms(2)
proof (induction rule: limited_reach.induct)
  case (step_one v v')
  from step_one.hyps(2) show ?case
  proof cases
    case (take_one src d ords now_ms lim reply calls)
    have "count_list (replicate calls (now_ms div 1000)) s \<le> of_bool (reply \<noteq> None \<and> now_ms div 1000 = s)"
      using env_limited_step(1) [OF assms(1) take_one(3)] by (cases calls) (auto split: if_splits)
    with step_one.IH show ?thesis by (simp add: take_one(1) add_mono)
  qed (simp add: step_one.IH)
qed (simp add: replies_in_def)

text \<open>With a clock that runs forwards: what was replied in a second that is not over, and what the global
  bucket still has for it, is at most the capacity; nothing was replied in a second to come.\<close>

definition budget_inv :: "u32 \<Rightarrow> limited_world \<Rightarrow> bool" where
  "budget_inv gcap v \<longleftrightarrow>
     (\<forall>s. replies_in s v \<le> unat gcap)
     \<and> (\<forall>s. (\<forall>t \<in> set (taken v). t div 1000 \<le> s) \<longrightarrow>
          replies_in s v + bucket_avail gcap s (global (limit v)) \<le> unat gcap)
     \<and> (\<forall>s. (\<forall>t \<in> set (taken v). t div 1000 < s) \<longrightarrow> replies_in s v = 0)"

lemma budget_take:
  assumes "hmac_sha256_output (env_hmac env)" and "limiter_inv cap gcap (limit v)" and "0 < gcap" and "budget_inv gcap v"
    and "env_limited env label ords (limit v) src now_ms d = Some (lim, reply, calls)"
    and "\<forall>t \<in> set (taken v). t \<le> now_ms"
  shows "budget_inv gcap (limited_take lim reply calls src now_ms d v)"
proof -
  let ?s = "now_ms div 1000" and ?v = "limited_take lim reply calls src now_ms d v"
  have past: "\<forall>t \<in> set (taken v). t div 1000 \<le> ?s" using assms(6) by (simp add: div_mono_word)
  have "limiter_inv cap gcap lim"
    using env_limited_step(2) [OF assms(1,5)] assms(2) allow_inv [OF assms(2), of ords "label src" "sock_ip src" now_ms] by auto
  then have bound: "bucket_avail gcap s (global lim) \<le> unat gcap" for s
    by (simp add: bucket_avail_def limiter_inv_def word_le_nat_alt)
  have spends: "of_bool (reply \<noteq> None) + bucket_avail gcap ?s (global lim) \<le> bucket_avail gcap ?s (global (limit v))"
    using env_limited_step(2) [OF assms(1,5)]
      global_budget.step_spends [of gcap cap "limit v" ?s "(ords, label src, sock_ip src, now_ms)"] assms(2,3)
    by (auto simp: in_window_def GLOBAL_WINDOW_MS_def)
  have now: "replies_in ?s v + bucket_avail gcap ?s (global (limit v)) \<le> unat gcap"
    using assms(4) past by (simp add: budget_inv_def)
  have "replies_in s ?v + bucket_avail gcap s (global (limit ?v)) \<le> unat gcap" if "?s \<le> s" for s
  proof (cases "s = ?s")
    case True
    with now spends show ?thesis by simp
  next
    case False
    then have "replies_in s v = 0" using assms(4) past that by (force simp: budget_inv_def)
    with False bound show ?thesis by simp
  qed
  moreover have "replies_in s ?v = 0" if "?s < s" for s
    using assms(4) past that by (force simp: budget_inv_def)
  moreover have "replies_in s ?v \<le> unat gcap" for s
    using assms(4) now spends by (cases "s = ?s") (simp_all add: budget_inv_def)
  ultimately show ?thesis by (simp add: budget_inv_def)
qed

lemma limited_reach_budget:
  assumes "hmac_sha256_output (env_hmac env)" and "limited_reach env label cap gcap may_serve may_deliver v"
    and "0 < gcap" and "sorted_wrt (\<ge>) (taken v)"
  shows "budget_inv gcap v"
  using assms(2,4)
proof (induction rule: limited_reach.induct)
  case (step_one v v')
  from step_one.hyps(2) show ?case
  proof cases
    case (take_one src d ords now_ms lim reply calls)
    have "limiter_inv cap gcap (limit v)"
      by (rule limiter_reach_inv [OF limited_reach_limiter [OF assms(1) step_one.hyps(1)]])
    moreover have "budget_inv gcap v" and "\<forall>t \<in> set (taken v). t \<le> now_ms"
      using step_one.IH step_one.prems by (simp_all add: take_one(1))
    ultimately show ?thesis
      using budget_take [OF assms(1) _ assms(3) _ take_one(3)] by (simp add: take_one(1))
  next
    case (poll_one outcome now)
    then show ?thesis using step_one.IH step_one.prems by (simp add: budget_inv_def)
  qed
qed (simp add: budget_inv_def replies_in_def bucket_avail_def limiter_new_def bucket_new_def)

section \<open>A run\<close>

text \<open>Conversely, what the limiter grants is answered as without it.\<close>

lemma limited_granted:
  assumes "env_reply env src (now_ms div 1000) d = Some (Some r)"
    and "snd (allow ords lim (label src) (sock_ip src) now_ms)"
  shows "\<exists>calls. env_limited env label ords lim src now_ms d
    = Some (fst (allow ords lim (label src) (sock_ip src) now_ms), Some r, calls)"
proof -
  obtain calls where "server_work (env_hmac env) (env_ecdsa env) (env_issuer env) (env_mode env) src (now_ms div 1000) d
      = Some (Some r, calls)"
    using assms(1) unfolding env_reply_def server_work_reply [symmetric] by auto
  with assms show ?thesis
    by (auto simp: env_limited_def limited_server_def env_reply_def server_reply_def case_prod_beta Let_def
        split: option.splits sum.splits credential_error.splits)
qed

lemma limited_reach_grant:
  assumes "limited_reach env label cap gcap may_serve may_deliver v" and "may_serve (base v) src d"
    and "env_reply env src (now_ms div 1000) d = Some (Some r)"
    and "snd (allow ords (limit v) (label src) (sock_ip src) now_ms)"
  obtains v' where "limited_reach env label cap gcap may_serve may_deliver v'"
    "base v' = (base v)\<lparr>served := (src, now_ms div 1000, d, r) # served (base v)\<rparr>"
    "limit v' = fst (allow ords (limit v) (label src) (sock_ip src) now_ms)" "taken v' = now_ms # taken v"
proof -
  obtain calls where "env_limited env label ords (limit v) src now_ms d
      = Some (fst (allow ords (limit v) (label src) (sock_ip src) now_ms), Some r, calls)"
    using limited_granted [where label = label, OF assms(3,4)] by blast
  from limited_reach.step_one [OF assms(1) limited_step.take_one [where may_serve = may_serve, OF assms(2) this]]
  show thesis by (rule that) simp_all
qed

lemma limited_reach_poll:
  "limited_reach env label cap gcap may_serve may_deliver v \<Longrightarrow> may_deliver (base v) outcome \<Longrightarrow>
   limited_reach env label cap gcap may_serve may_deliver (v\<lparr>base := world_poll env (now, outcome) (base v)\<rparr>)"
  by (rule limited_reach.step_one [OF _ limited_step.poll_one])

text \<open>The exchange of theory Network goes through a new limiter.\<close>

lemma example_grants:
  "snd (allow std_orders (limiter_new 6 64) ''udp'' (sock_ip example_mapped) 1000000)"
  "snd (allow std_orders (fst (allow std_orders (limiter_new 6 64) ''udp'' (sock_ip example_mapped) 1000000))
     ''udp'' (sock_ip example_mapped) 1050000)"
  by (simp_all add: allow_def limiter_new_def bucket_for_def bucket_at_def peek_def spend_def bucket_new_def
      Let_def saturating_pred_def MAX_TRACKED_SOURCES_def SESSION_SOURCE_WINDOW_MS_def GLOBAL_WINDOW_MS_def)

lemma example_limited_run:
  obtains v where
    "limited_reach example_env (\<lambda>_. ''udp'') 6 64 (off_path_serve example_env (\<lambda>src. src = example_mapped))
       (off_path_deliver example_env) v"
    "client (base v) = Finished (Done (Inr example_mapped))" "taken v = [1050000, 1000000]"
proof -
  let ?reach = "limited_reach example_env (\<lambda>_. ''udp'') 6 64 (off_path_serve example_env (\<lambda>src. src = example_mapped))
     (off_path_deliver example_env)"
  let ?d0 = "request_with (example_id 0) (identity_attr example_spki)"
  let ?d1 = "encode_signed_request (example_id 1) example_nonce example_signer"
  let ?v0 = "limited_start example_env 6 64 (example_id 0)"
  obtain r0 r1 where r0: "env_reply example_env example_mapped 1000 ?d0 = Some (Some r0)"
    and c0: "encode_challenge (example_id 0) 401
      (Some (genuine path_hmac (from_secret (replicate 32 5)) (bucket_of 1000) example_mapped)) = Some r0"
    and r1: "env_reply example_env example_mapped 1050 ?d1 = Some (Some r1)"
      "r1 = encode_binding_success (example_id 1) example_mapped"
    by (rule example_services)
  note turns = example_turns [OF c0]
  have "?reach ?v0" by (rule limited_reach.begin_one) simp
  moreover have "off_path_serve example_env (\<lambda>src. src = example_mapped) (base ?v0) example_mapped ?d0"
    by (simp add: off_path_serve_def world_start_def example_signer_def)
  ultimately obtain v1 where v1: "?reach v1"
    "base v1 = (base ?v0)\<lparr>served := (example_mapped, 1000, ?d0, r0) # served (base ?v0)\<rparr>"
    "limit v1 = fst (allow std_orders (limiter_new 6 64) ''udp'' (sock_ip example_mapped) 1000000)" "taken v1 = [1000000]"
    by (rule limited_reach_grant [where now_ms = 1000000 and r = r0 and ords = std_orders]) (simp_all add: r0 example_grants [simplified])
  let ?v2 = "v1\<lparr>base := world_poll example_env (10, Datagram r0 example_server) (base v1)\<rparr>"
  have "?reach ?v2"
    by (rule limited_reach_poll [OF v1(1)]) (simp add: v1(2) off_path_deliver_def)
  moreover have "off_path_serve example_env (\<lambda>src. src = example_mapped) (base ?v2) example_mapped ?d1"
    by (simp add: v1(2) off_path_serve_def world_poll_def turns del: One_nat_def)
  ultimately obtain v3 where v3: "?reach v3"
    "base v3 = (base ?v2)\<lparr>served := (example_mapped, 1050, ?d1, r1) # served (base ?v2)\<rparr>" "taken v3 = [1050000, 1000000]"
    by (rule limited_reach_grant [where now_ms = 1050000 and r = r1 and ords = std_orders])
      (simp_all add: r1(1) v1(3,4) example_grants [simplified] del: One_nat_def)
  have "?reach (v3\<lparr>base := world_poll example_env (20, Datagram r1 example_server) (base v3)\<rparr>)"
    by (rule limited_reach_poll [OF v3(1)]) (simp add: v3(2) off_path_deliver_def)
  then show thesis
    by (rule that) (simp_all add: v1(2) v3(2,3) turns r1(2) del: One_nat_def)
qed

section \<open>Properties\<close>

text \<open>C10: the whole deployment refines the network without a limiter, and costs a bounded amount. Whatever
  an attacker is allowed to feed to the server and to the client, every run of client, limited server and
  attacker is a run without the limiter, so that no attack is added by refusing; the limiter is in a
  state of the code's own; in any second, of any clock, no more signatures are verified than replies are
  sent; and where the server's clock does not run backwards, no more replies are sent than the global
  capacity.\<close>
theorem limited_network_refines:
  assumes "hmac_sha256_output (env_hmac env)" and "limited_reach env label cap gcap may_serve may_deliver v"
  shows "net_reach env may_serve may_deliver (base v)
    \<and> limiter_reach cap gcap (limit v)
    \<and> count_list (verified v) s \<le> replies_in s v
    \<and> (0 < gcap \<and> sorted_wrt (\<ge>) (taken v) \<longrightarrow> replies_in s v \<le> unat gcap)"
  using limited_reach_simulated [OF assms(2)] limited_reach_limiter [OF assms] verified_le_replies [OF assms]
    limited_reach_budget [OF assms]
  by (simp add: budget_inv_def)

theorem limited_network_refines_witness:
  "\<exists>v :: limited_world. client (base v) = Finished (Done (Inr example_mapped))
     \<and> net_reach example_env (off_path_serve example_env (\<lambda>src. src = example_mapped)) (off_path_deliver example_env) (base v)
     \<and> count_list (verified v) 1050 \<le> replies_in 1050 v \<and> replies_in 1050 v \<le> unat (64 :: u32)"
proof -
  obtain v where v: "limited_reach example_env (\<lambda>_. ''udp'') 6 64 (off_path_serve example_env (\<lambda>src. src = example_mapped))
      (off_path_deliver example_env) v"
    "client (base v) = Finished (Done (Inr example_mapped))" "taken v = [1050000, 1000000]"
    by (rule example_limited_run)
  have "hmac_sha256_output (env_hmac example_env)" by simp
  from limited_network_refines [OF this v(1), of 1050] v(2,3) show ?thesis by (intro exI [of _ v]) simp
qed

end
