(* ===== verification/PlainNetwork.thy ===== *)
theory PlainNetwork
  imports Server
begin

text \<open>
  The plain client of \<open>src/client.rs\<close> on a network. Its only defences are the random transaction id and
  the comparison of the sender's address; what they are worth against an attacker who can send from the
  server's address and reach the server from anywhere, but cannot guess the id, is shown here.
\<close>

section \<open>What may arrive\<close>

text \<open>The id field of a datagram.\<close>

definition id_field :: "bytes \<Rightarrow> bytes" where
  "id_field d = take 12 (drop 8 d)"

lemma id_field_received [simp]: "id_field (received d) = id_field d"
  by (simp add: id_field_def received_def drop_take)

text \<open>A reply the server has made, for one of the client's own datagrams seen at an address of the
  client, or for a request of somebody else, who does not know the id.\<close>

definition replied_to ::
  "mac \<Rightarrow> verifier \<Rightarrow> nonce_issuer \<Rightarrow> credential_mode \<Rightarrow> (socket_addr \<Rightarrow> bool) \<Rightarrow> transaction_id \<Rightarrow> bytes \<Rightarrow> bool" where
  "replied_to hmac ecdsa issuer mode mapped t d \<longleftrightarrow>
     (\<exists>src clock request. server_reply hmac ecdsa issuer mode src clock request = Some (Some d)
        \<and> (mapped src \<or> id_field request \<noteq> txid_bytes t))"

lemma replied_to_names_own:
  assumes "hmac_sha256_output hmac" and "replied_to hmac ecdsa issuer mode mapped t d"
    and "parse_binding_response (received d) (Some t) = Some (Inr a)"
  shows "\<exists>src. mapped src \<and> a = sock_new (fold_ip (sock_ip src)) (sock_port src)"
proof -
  obtain src clock request where r: "server_reply hmac ecdsa issuer mode src clock request = Some (Some d)"
    and own: "mapped src \<or> id_field request \<noteq> txid_bytes t"
    using assms(2) by (auto simp: replied_to_def)
  have "parse_binding_response d (Some t) = Some (Inr a)" using assms(3) reply_received [OF assms(1) r] by simp
  from success_answers_request [OF assms(1) r this] own show ?thesis by (auto simp: id_field_def)
qed

lemma query_loop_heard:
  assumes "snd (query_loop t server deadline polls) = Done (Inr a)"
  obtains now d where "(now, Datagram d server) \<in> set polls" "now < deadline"
    "parse_binding_response (received d) (Some t) = Some (Inr a)"
proof (cases "dropWhile (stray server deadline) polls")
  case Nil
  then show thesis using assms by (simp add: query_loop_result del: dropWhile_eq_Nil_conv)
next
  case (Cons p ps)
  then have "decision t deadline p = Inr a" using assms by (simp add: query_loop_result)
  then obtain now d "from" where p: "p = (now, Datagram d from)" "now < deadline"
    "parse_binding_response (received d) (Some t) = Some (Inr a)"
    by (auto simp: decision_ok_iff)
  moreover have "\<not> stray server deadline p" using Cons by (metis hd_dropWhile list.distinct(1) list.sel(1))
  moreover have "p \<in> set polls" using Cons by (metis list.set_intros(1) set_dropWhileD)
  ultimately show thesis by (intro that) auto
qed

section \<open>Properties\<close>

text \<open>C15: what the plain client is safe from. However the datagrams it receives are lost, duplicated,
  delayed or reordered, and whatever arrives from other addresses: if every datagram that arrives from the server's
  address either carries another transaction id than the one just sent, or is a reply the server has made
  to this client's request at an address of the client, or to anybody's request under another id, then
  an address the client returns is the folded form of an address the server saw the client at.\<close>
theorem plain_client_address_is_own:
  assumes "hmac_sha256_output hmac" and "new_transaction_id fill 0 = Some t"
    and "\<And>now d. (now, Datagram d server) \<in> set polls \<Longrightarrow>
      id_field d \<noteq> txid_bytes t \<or> replied_to hmac ecdsa issuer mode mapped t d"
    and "snd (query_reflexive_address fill send_error start server timeout polls) = Done (Inr a)"
  shows "\<exists>src. mapped src \<and> a = sock_new (fold_ip (sock_ip src)) (sock_port src)"
proof -
  have "send_error = None" using assms(4) query_send_error [OF assms(2)] by (cases send_error) auto
  with assms(4) have "snd (query_loop t server (start + timeout) polls) = Done (Inr a)"
    by (simp add: query_result [OF assms(2)])
  then obtain now d where d: "(now, Datagram d server) \<in> set polls"
    and ok: "parse_binding_response (received d) (Some t) = Some (Inr a)" by (rule query_loop_heard)
  have "id_field d = txid_bytes t" using parse_ok_id [OF ok, folded id_field_def] by simp
  with assms(3) [OF d] have "replied_to hmac ecdsa issuer mode mapped t d" by blast
  from replied_to_names_own [OF assms(1) this ok] show ?thesis .
qed

text \<open>A forgery under another id from the server's address is an error to the client, so it may cost the
  client its answer, but not mislead it; here a datagram spoofed from elsewhere comes first.\<close>

theorem plain_client_address_is_own_witness:
  "\<exists>src. src = example_mapped \<and> example_mapped = sock_new (fold_ip (sock_ip src)) (sock_port src)"
proof -
  let ?reply = "encode_binding_success (example_id 0) example_mapped"
  let ?polls = "[(105, Datagram [1, 1] (SockV4 (Ipv4 6 6 6 6) 53)), (110, Datagram ?reply example_server)]"
  have "server_reply example_hmac example_ecdsa (from_secret (replicate 32 5)) Advisory example_mapped 7
      (encode_binding_request (example_id 0)) = Some (Some ?reply)"
    using server_reply_bare [OF example_hmac_output classify_bare] by blast
  then have replied: "replied_to example_hmac example_ecdsa (from_secret (replicate 32 5)) Advisory
      (\<lambda>src. src = example_mapped) (example_id 0) ?reply"
    unfolding replied_to_def by blast
  have "decision (example_id 0) 150 (110, Datagram ?reply example_server) = Inr example_mapped"
    using example_mapped_usable parse_encode_success [of "example_id 0" example_mapped] by (simp add: decision_ok_iff)
  then have "snd (query_reflexive_address example_fill None 100 example_server 50 ?polls) = Done (Inr example_mapped)"
    using query_loop_strays [of example_server 150 "[(105, Datagram [1, 1] (SockV4 (Ipv4 6 6 6 6) 53))]" "example_id 0"
        "[(110, Datagram ?reply example_server)]"]
    by (simp add: query_result [OF example_fill_id] query_loop_decision del: query_loop.simps)
  from plain_client_address_is_own [OF example_hmac_output example_fill_id _ this, of example_ecdsa
      "from_secret (replicate 32 5)" Advisory "\<lambda>src. src = example_mapped"] replied
  show ?thesis by simp
qed

end
