(* ===== verification/Replicas.thy ===== *)
theory Replicas
  imports Server
begin

text \<open>
  Several server processes behind one address, SPEC.md section 14.4. A replica is an issuer; a
  balancer decides which one sees a datagram. Replicas that share a secret are one server to the client;
  what happens between replicas that do not is shown here, for the nonce and for the whole exchange.
\<close>

section \<open>A nonce at another replica\<close>

lemma nonce_at_replica:
  assumes "hmac_sha256_output hmac"
    and "take 16 (hmac (secret home) (nonce_message b src)) \<noteq> take 16 (hmac (secret replica) (nonce_message b src'))"
  shows "check_nonce hmac replica (as_bytes (base64url_encode (genuine hmac home b src))) src' now = Some Invalid"
proof -
  have "genuine hmac home b src \<noteq> genuine hmac replica b' src'" for b'
    using assms(2) by (auto simp: genuine_def)
  then show ?thesis by (simp add: nonce_check_eq [OF assms(1)] genuine_text_decodes)
qed

text \<open>Whatever its signature, a signed request with an invalid nonce is challenged again.\<close>

lemma server_reply_invalid:
  assumes "classify_request d = Some (Inr (t, Signed spki n sig))" and "check_nonce hmac issuer n src now = Some Invalid"
    and "issue hmac issuer src now = Some raw"
  shows "server_reply hmac ecdsa issuer mode src now d = map_option Some (encode_challenge t 401 (Some raw))"
  using assms by (simp add: server_reply_def reference_other carry_out_def)

section \<open>Properties\<close>

text \<open>C27: a re-balanced exchange fails. SPEC.md section 14.4 says a flow that moves to a replica with another
  secret costs the client one 401 re-challenge and never a failure, section 14.8 that the client
  challenges once more. When the identity request reaches one replica and the signed request another
  whose MAC of the nonce message differs, the other calls the nonce invalid and challenges again, and
  the client, whose signature verifies, gives up with \<open>Refused 401\<close>, in either mode, whatever
  would arrive later. It has sent exactly the two requests the replicas were given.\<close>
theorem rebalanced_exchange_refused:
  fixes mode :: credential_mode and start timeout now1 now2 :: nat and server :: socket_addr and debug :: bool
  assumes "hmac_sha256_output hmac" and "is_valid_spki_der (spki_der signer)"
    and "\<forall>m. is_valid_signature_der_len (sign signer m) \<and> ecdsa (drop 26 (spki_der signer)) m (sign signer m)"
    and "new_transaction_id fill 0 = Some t0" and "new_transaction_id fill 1 = Some t1"
    and "take 16 (hmac (secret home) (nonce_message (bucket_of s0) src))
      \<noteq> take 16 (hmac (secret replica) (nonce_message (bucket_of s0) src'))"
    and "now1 < start + timeout" and "now2 < start + timeout"
  shows "\<exists>d0 r0 d1 r1.
    server_reply hmac ecdsa home mode src s0 d0 = Some (Some r0)
    \<and> server_reply hmac ecdsa replica mode src' s1 d1 = Some (Some r1)
    \<and> (let run = query_reflexive_address_signed debug fill (\<lambda>_. None) start server timeout signer
          ((now1, Datagram r0 server) # (now2, Datagram r1 server) # rest)
       in datagrams (fst run) = [(d0, server), (d1, server)] \<and> snd run = Done (Inl (Refused 401)))"
proof -
  obtain raw r0 where raw: "issue hmac home src s0 = Some raw" "length raw = NONCE_LEN"
      "encode_challenge t0 401 (Some raw) = Some r0"
    and r0: "server_reply hmac ecdsa home mode src s0 (request_with t0 (identity_attr (spki_der signer))) = Some (Some r0)"
    by (rule handshake_first_reply [OF assms(1,2)])
  obtain raw' where raw': "issue hmac replica src' s1 = Some raw'" "length raw' = NONCE_LEN"
    using issue_length [OF assms(1)] by blast
  obtain r1 where r1: "encode_challenge t1 401 (Some raw') = Some r1" using encode_challenge_some by blast
  have raw_eq: "raw = genuine hmac home (bucket_of s0) src" using raw(1) by (simp add: issue_eq [OF assms(1)])
  have "classify_request (challenged_request t1 raw signer) = Some (Inr (t1, Signed (spki_der signer)
      (as_bytes (base64url_encode raw)) (sign signer (signing_message t1 (as_bytes (base64url_encode raw)) (spki_der signer)))))"
    using assms(3) by (intro classify_challenged_request [OF assms(2) _ raw(2)]) simp
  from server_reply_invalid [OF this, of hmac replica src' s1 raw' ecdsa mode]
  have reply1: "server_reply hmac ecdsa replica mode src' s1 (challenged_request t1 raw signer) = Some (Some r1)"
    using nonce_at_replica [OF assms(1,6), of s1] raw'(1) r1 by (simp add: raw_eq)
  have "query_reflexive_address_signed debug fill (\<lambda>_. None) start server timeout signer
      ((now1, Datagram r0 server) # (now2, Datagram r1 server) # rest)
    = ([SendTo (request_with t0 (identity_attr (spki_der signer))) server, Wait (start + timeout - now1),
        SendTo (challenged_request t1 raw signer) server, Wait (start + timeout - now2)], Done (Inl (Refused 401)))"
    using assms(5,7,8)
    by (simp add: query_signed_result [where send_error = "\<lambda>_. None", OF assms(2,4)] signed_loop_Cons
        act_challenge [OF raw(2,3)] act_challenge [OF raw'(2) r1] handle_challenge_def wire_consts emit_def challenged_request_def)
  then show ?thesis using r0 reply1 by (intro exI conjI) (assumption | simp)+
qed

text \<open>A MAC that is nothing but its key tells two secrets apart.\<close>

definition key_hmac :: mac where
  "key_hmac key m = take 32 (key @ replicate 32 0)"

lemma key_hmac_output [simp]: "hmac_sha256_output key_hmac"
  by (simp add: hmac_sha256_output_def key_hmac_def min_def)

theorem rebalanced_exchange_refused_witness:
  "\<exists>d0 r0 d1 r1.
    server_reply key_hmac example_ecdsa (from_secret (replicate 32 5)) Required example_mapped 1000 d0 = Some (Some r0)
    \<and> server_reply key_hmac example_ecdsa (from_secret (replicate 32 6)) Required example_mapped 1001 d1 = Some (Some r1)
    \<and> (let run = query_reflexive_address_signed True example_fill (\<lambda>_. None) 100 example_server 50 example_signer
          [(110, Datagram r0 example_server), (120, Datagram r1 example_server)]
       in datagrams (fst run) = [(d0, example_server), (d1, example_server)] \<and> snd run = Done (Inl (Refused 401)))"
proof (rule rebalanced_exchange_refused [OF key_hmac_output example_signer_valid(1) _ example_fill_id example_fill_id])
  show "take 16 (key_hmac (secret (from_secret (replicate 32 5))) (nonce_message (bucket_of 1000) example_mapped))
    \<noteq> take 16 (key_hmac (secret (from_secret (replicate 32 6))) (nonce_message (bucket_of 1000) example_mapped))"
    by (simp add: key_hmac_def from_secret_def numeral_eq_Suc)
qed simp_all

end
