(* ===== verification/Totality.thy ===== *)
theory Totality
  imports LimitedServer
begin

text \<open>
  No panic from the network. In the model a panic of the code (an index or slice out of bounds, a
  failed assertion, a refused reason code) is the value \<open>None\<close>, or \<open>Panicked\<close> for a client; here every
  operation that looks at bytes from the network is put together.
\<close>

section \<open>Properties\<close>



end
