(* ===== verification/Messages.thy ===== *)
theory Messages
  imports Establish SignedClient
begin

text \<open>
  The texts of the three error types, as the \<open>#[error(...)]\<close> attributes of \<open>StunError\<close>
  (\<open>src/codec.rs\<close>), \<open>CredentialError\<close> (\<open>src/credential/wire.rs\<close>) and \<open>SignedQueryError\<close>
  (\<open>src/credential/signed_client.rs\<close>) give them to \<open>Display\<close>. A caller that logs or compares texts loses
  nothing: no two errors read alike.
\<close>

section \<open>The texts\<close>

text \<open>\<open>{0:#06x}\<close> of a \<open>u16\<close>: the prefix and four hexadecimal digits.\<close>

fun display_stun_error :: "stun_error \<Rightarrow> string" where
  "display_stun_error Truncated = ''STUN message truncated''"
| "display_stun_error BadMagicCookie = ''bad STUN magic cookie''"
| "display_stun_error TransactionIdMismatch = ''STUN transaction id mismatch''"
| "display_stun_error NoMappedAddress = ''no usable mapped address in STUN response''"
| "display_stun_error (UnexpectedType ty) = ''unexpected STUN message type: 0x'' @ show_hex4 (unat ty)"
| "display_stun_error (Io e) = ''STUN io: '' @ e"
| "display_stun_error Timeout = ''STUN request timed out''"

fun display_credential_error :: "credential_error \<Rightarrow> string" where
  "display_credential_error (credential_error.Stun e) = ''underlying STUN error: '' @ display_stun_error e"
| "display_credential_error Malformed = ''malformed DIG credential attribute''"
| "display_credential_error BadSignature = ''signature did not verify''"

fun display_signed_query_error :: "signed_query_error \<Rightarrow> string" where
  "display_signed_query_error (signed_query_error.Stun e) = display_stun_error e"
| "display_signed_query_error (Refused c) = ''server refused with code '' @ show_dec (unat c)"
| "display_signed_query_error BadChallenge = ''credential exchange cannot proceed''"

section \<open>Lemmas\<close>

lemma show_hex4_u16_inject [simp]: "show_hex4 (unat a) = show_hex4 (unat b) \<longleftrightarrow> a = b" for a b :: u16
proof
  have bound: "unat w < 65536" for w :: u16 using unsigned_less [of w, where 'a = nat] by simp
  assume "show_hex4 (unat a) = show_hex4 (unat b)"
  then have "Some (unat a) = Some (unat b)" by (metis bound digits_value_show_hex4)
  then show "a = b" by (simp add: word_unat_eq_iff)
qed simp

lemma show_dec_u16_inject [simp]: "show_dec (unat a) = show_dec (unat b) \<longleftrightarrow> a = b" for a b :: u16
proof
  have bound: "unat w < 65536" for w :: u16 using unsigned_less [of w, where 'a = nat] by simp
  assume "show_dec (unat a) = show_dec (unat b)"
  then have "Some (unat a) = Some (unat b)" by (metis bound digits_value_show_dec)
  then show "a = b" by (simp add: word_unat_eq_iff)
qed simp

lemma stun_texts_differ: "display_stun_error e = display_stun_error e' \<longleftrightarrow> e = e'"
  by (cases e; cases e') simp_all

lemma no_stun_text [simp]:
  "display_stun_error e \<noteq> CHR ''s'' # s" "display_stun_error e \<noteq> CHR ''c'' # s"
  "CHR ''s'' # s \<noteq> display_stun_error e" "CHR ''c'' # s \<noteq> display_stun_error e"
  by (cases e; simp)+

text \<open>No two errors of one type read alike.\<close>

lemma error_texts_differ:
  "display_stun_error e = display_stun_error e' \<longleftrightarrow> e = e'"
  "display_credential_error c = display_credential_error c' \<longleftrightarrow> c = c'"
  "display_signed_query_error q = display_signed_query_error q' \<longleftrightarrow> q = q'"
  by (rule stun_texts_differ, (cases c; cases c'; simp add: stun_texts_differ),
    (cases q; cases q'; simp add: stun_texts_differ))

end
