(* ===== verification/Conformance.thy ===== *)
theory Conformance
  imports Server Establish Observe Messages
begin

text \<open>
  The model against the vectors of the repository. \<open>tests/codec.rs\<close>, \<open>tests/credential.rs\<close>,
  \<open>tests/scope.rs\<close>, \<open>tests/establish.rs\<close> and \<open>tests/observe.rs\<close> pin the code to fixed inputs and
  outputs, the wire vectors computed outside the crate; here the definitions are evaluated on the same
  inputs. Nothing else depends on this theory.
\<close>

section \<open>Wire vectors\<close>

definition spec_txid :: transaction_id where
  "spec_txid = Txid [0, 1, 2, 3, 4, 5, 6, 7, 8, 9, 10, 11]"

definition independent_spki :: bytes where
  "independent_spki =
     [0x30, 0x59, 0x30, 0x13, 0x06, 0x07, 0x2a, 0x86, 0x48, 0xce, 0x3d, 0x02, 0x01, 0x06, 0x08, 0x2a, 0x86, 0x48, 0xce, 0x3d,
     0x03, 0x01, 0x07, 0x03, 0x42, 0x00, 0x04, 0x10, 0x59, 0xec, 0xc6, 0x97, 0x1e, 0x99, 0x20, 0x89, 0x6f, 0x53, 0xf1, 0x00,
     0xc4, 0xcd, 0x64, 0xf3, 0xb3, 0x61, 0x06, 0xdb, 0xa2, 0x49, 0x85, 0x60, 0x57, 0x88, 0xad, 0xeb, 0xd0, 0x03, 0x80, 0x68,
     0xfd, 0xcc, 0x95, 0x27, 0x52, 0x54, 0xc9, 0x51, 0x78, 0x91, 0x30, 0x99, 0x23, 0x33, 0x6f, 0x34, 0x46, 0x9f, 0x48, 0xea,
     0x71, 0xf4, 0xf6, 0xf1, 0xcc, 0x0d, 0x8f, 0xc4, 0x44, 0xbb, 0xe4]"

definition independent_nonce :: bytes where
  "independent_nonce = [0x00, 0x00, 0x01, 0x02, 0x00, 0x01, 0x02, 0x03, 0x04, 0x05, 0x06, 0x07, 0x08, 0x09, 0x0a, 0x0b, 0x0c, 0x0d, 0x0e, 0x0f]"

definition independent_nonce_wire :: bytes where
  "independent_nonce_wire = as_bytes ''AAABAgABAgMEBQYHCAkKCwwNDg8''"

lemmas vector_inputs = spec_txid_def independent_spki_def independent_nonce_def independent_nonce_wire_def

lemma vector_binding_request:
  "encode_binding_request spec_txid =
     [0x00, 0x01, 0x00, 0x00, 0x21, 0x12, 0xa4, 0x42, 0x00, 0x01, 0x02, 0x03, 0x04, 0x05, 0x06, 0x07, 0x08, 0x09, 0x0a, 0x0b]"
  by (code_simp; simp add: Txid_inverse)

lemma vector_binding_success_ipv4:
  "encode_binding_success spec_txid (SockV4 (Ipv4 1 1 1 1) 9444) =
     [0x01, 0x01, 0x00, 0x0c, 0x21, 0x12, 0xa4, 0x42, 0x00, 0x01, 0x02, 0x03, 0x04, 0x05, 0x06, 0x07, 0x08, 0x09, 0x0a, 0x0b,
     0x00, 0x20, 0x00, 0x08, 0x00, 0x01, 0x05, 0xf6, 0x20, 0x13, 0xa5, 0x43]"
  by (code_simp; simp add: Txid_inverse)

lemma vector_binding_success_ipv6:
  "encode_binding_success spec_txid (SockV6 (Ipv6 0x2606 0x4700 0x4700 0 0 0 0 0x1111) 9444 0 0) =
     [0x01, 0x01, 0x00, 0x18, 0x21, 0x12, 0xa4, 0x42, 0x00, 0x01, 0x02, 0x03, 0x04, 0x05, 0x06, 0x07, 0x08, 0x09, 0x0a, 0x0b,
     0x00, 0x20, 0x00, 0x14, 0x00, 0x02, 0x05, 0xf6, 0x07, 0x14, 0xe3, 0x42, 0x47, 0x01, 0x02, 0x03, 0x04, 0x05, 0x06, 0x07,
     0x08, 0x09, 0x1b, 0x1a]"
  by (simp add: vector_inputs encode_success_header xor_mapped_value_def header_def layout Txid_inverse write_attr_def Let_def
      be16_def be32_def octets6_def MAGIC_COOKIE_def BINDING_SUCCESS_def ATTR_XOR_MAPPED_ADDRESS_def FAMILY_IPV6_def
      xor_port_key_def xor_bytes_def)

lemma vector_bare_401:
  "encode_challenge spec_txid ERR_UNAUTHENTICATED None =
     Some [0x01, 0x11, 0x00, 0x18, 0x21, 0x12, 0xa4, 0x42, 0x00, 0x01, 0x02, 0x03, 0x04, 0x05, 0x06, 0x07, 0x08, 0x09, 0x0a, 0x0b,
     0x00, 0x09, 0x00, 0x13, 0x00, 0x00, 0x04, 0x01, 0x55, 0x6e, 0x61, 0x75, 0x74, 0x68, 0x65, 0x6e, 0x74, 0x69, 0x63, 0x61,
     0x74, 0x65, 0x64, 0x00]"
  by (code_simp; simp add: Txid_inverse)

lemma vector_401_with_nonce:
  "encode_challenge spec_txid ERR_UNAUTHENTICATED (Some independent_nonce) =
     Some [0x01, 0x11, 0x00, 0x44, 0x21, 0x12, 0xa4, 0x42, 0x00, 0x01, 0x02, 0x03, 0x04, 0x05, 0x06, 0x07, 0x08, 0x09, 0x0a, 0x0b,
     0x00, 0x09, 0x00, 0x13, 0x00, 0x00, 0x04, 0x01, 0x55, 0x6e, 0x61, 0x75, 0x74, 0x68, 0x65, 0x6e, 0x74, 0x69, 0x63, 0x61,
     0x74, 0x65, 0x64, 0x00, 0x00, 0x14, 0x00, 0x08, 0x64, 0x69, 0x67, 0x2d, 0x73, 0x74, 0x75, 0x6e, 0x00, 0x15, 0x00, 0x1b,
     0x41, 0x41, 0x41, 0x42, 0x41, 0x67, 0x41, 0x42, 0x41, 0x67, 0x4d, 0x45, 0x42, 0x51, 0x59, 0x48, 0x43, 0x41, 0x6b, 0x4b,
     0x43, 0x77, 0x77, 0x4e, 0x44, 0x67, 0x38, 0x00]"
  by (code_simp; simp add: Txid_inverse)

lemma vector_438:
  "encode_challenge spec_txid ERR_STALE_NONCE (Some independent_nonce) =
     Some [0x01, 0x11, 0x00, 0x40, 0x21, 0x12, 0xa4, 0x42, 0x00, 0x01, 0x02, 0x03, 0x04, 0x05, 0x06, 0x07, 0x08, 0x09, 0x0a, 0x0b,
     0x00, 0x09, 0x00, 0x0f, 0x00, 0x00, 0x04, 0x26, 0x53, 0x74, 0x61, 0x6c, 0x65, 0x20, 0x4e, 0x6f, 0x6e, 0x63, 0x65, 0x00,
     0x00, 0x14, 0x00, 0x08, 0x64, 0x69, 0x67, 0x2d, 0x73, 0x74, 0x75, 0x6e, 0x00, 0x15, 0x00, 0x1b, 0x41, 0x41, 0x41, 0x42,
     0x41, 0x67, 0x41, 0x42, 0x41, 0x67, 0x4d, 0x45, 0x42, 0x51, 0x59, 0x48, 0x43, 0x41, 0x6b, 0x4b, 0x43, 0x77, 0x77, 0x4e,
     0x44, 0x67, 0x38, 0x00]"
  by (code_simp; simp add: Txid_inverse)

lemma vector_400:
  "encode_challenge spec_txid ERR_BAD_REQUEST None =
     Some [0x01, 0x11, 0x00, 0x14, 0x21, 0x12, 0xa4, 0x42, 0x00, 0x01, 0x02, 0x03, 0x04, 0x05, 0x06, 0x07, 0x08, 0x09, 0x0a, 0x0b,
     0x00, 0x09, 0x00, 0x0f, 0x00, 0x00, 0x04, 0x00, 0x42, 0x61, 0x64, 0x20, 0x52, 0x65, 0x71, 0x75, 0x65, 0x73, 0x74, 0x00]"
  by (code_simp; simp add: Txid_inverse)

lemma vector_identity_request:
  "encode_identity_request True spec_txid independent_spki =
     Some ([0x00, 0x01, 0x00, 0x60, 0x21, 0x12, 0xa4, 0x42, 0x00, 0x01, 0x02, 0x03, 0x04, 0x05, 0x06, 0x07, 0x08, 0x09, 0x0a, 0x0b,
     0xd1, 0x60, 0x00, 0x5c, 0x01] @ independent_spki)"
  by (code_simp; simp add: Txid_inverse)

lemma vector_signing_message:
  "signing_message spec_txid independent_nonce_wire independent_spki =
     [0x64, 0x69, 0x67, 0x3a, 0x73, 0x74, 0x75, 0x6e, 0x3a, 0x76, 0x31, 0x01, 0x00, 0x01, 0x02, 0x03, 0x04, 0x05, 0x06, 0x07,
     0x08, 0x09, 0x0a, 0x0b, 0x00, 0x1b, 0x41, 0x41, 0x41, 0x42, 0x41, 0x67, 0x41, 0x42, 0x41, 0x67, 0x4d, 0x45, 0x42, 0x51,
     0x59, 0x48, 0x43, 0x41, 0x6b, 0x4b, 0x43, 0x77, 0x77, 0x4e, 0x44, 0x67, 0x38] @ independent_spki"
  by (code_simp; simp add: Txid_inverse)

lemma vector_nonce_text: "base64url_decode independent_nonce_wire = Some independent_nonce"
  by (code_simp; simp add: Txid_inverse)

lemma vector_spki: "is_valid_spki_der independent_spki"
  by (code_simp; simp add: Txid_inverse)

section \<open>Scope rows\<close>

lemma scope_ipv4_never:
  "\<forall>a \<in> set [SockV4 (Ipv4 0 0 0 0) 1234,
      SockV4 (Ipv4 0 1 2 3) 1234,
      SockV4 (Ipv4 127 0 0 1) 1234,
      SockV4 (Ipv4 169 254 1 1) 1234,
      SockV4 (Ipv4 192 0 0 1) 1234,
      SockV4 (Ipv4 192 0 2 1) 1234,
      SockV4 (Ipv4 198 51 100 1) 1234,
      SockV4 (Ipv4 203 0 113 1) 1234,
      SockV4 (Ipv4 192 88 99 1) 1234,
      SockV4 (Ipv4 198 18 0 1) 1234,
      SockV4 (Ipv4 198 19 255 255) 1234,
      SockV4 (Ipv4 224 0 0 1) 1234,
      SockV4 (Ipv4 240 0 0 1) 1234,
      SockV4 (Ipv4 255 255 255 255) 1234].
     scope_of a = NeverDialable"
  by code_simp

lemma scope_ipv4_private:
  "\<forall>a \<in> set [SockV4 (Ipv4 10 0 0 7) 1234,
      SockV4 (Ipv4 172 16 5 5) 1234,
      SockV4 (Ipv4 172 31 255 255) 1234,
      SockV4 (Ipv4 192 168 1 5) 1234,
      SockV4 (Ipv4 100 64 0 1) 1234,
      SockV4 (Ipv4 100 127 255 255) 1234].
     scope_of a = PrivateScope"
  by code_simp

lemma scope_ipv4_global:
  "\<forall>a \<in> set [SockV4 (Ipv4 1 1 1 1) 1234,
      SockV4 (Ipv4 8 8 8 8) 1234,
      SockV4 (Ipv4 100 63 255 255) 1234,
      SockV4 (Ipv4 100 128 0 0) 1234,
      SockV4 (Ipv4 198 17 255 255) 1234,
      SockV4 (Ipv4 198 20 0 0) 1234].
     scope_of a = GlobalUnicast"
  by code_simp

lemma scope_ipv6_never:
  "\<forall>a \<in> set [SockV6 (Ipv6 0 0 0 0 0 0 0 0) 1234 0 0,
      SockV6 (Ipv6 0 0 0 0 0 0 0 0x1) 1234 0 0,
      SockV6 (Ipv6 0xfe80 0 0 0 0 0 0 0x1) 1234 0 0,
      SockV6 (Ipv6 0xfebf 0 0 0 0 0 0 0xffff) 1234 0 0,
      SockV6 (Ipv6 0xff02 0 0 0 0 0 0 0x1) 1234 0 0,
      SockV6 (Ipv6 0x2001 0xdb8 0 0 0 0 0 0x1) 1234 0 0,
      SockV6 (Ipv6 0x2001 0x2 0 0 0 0 0 0x1) 1234 0 0,
      SockV6 (Ipv6 0x100 0 0 0 0 0 0 0x1) 1234 0 0].
     scope_of a = NeverDialable"
  by code_simp

lemma scope_ipv6_private:
  "\<forall>a \<in> set [SockV6 (Ipv6 0xfc00 0 0 0 0 0 0 0x1) 1234 0 0,
      SockV6 (Ipv6 0xfd00 0 0 0 0 0 0 0x1) 1234 0 0,
      SockV6 (Ipv6 0xfdff 0xffff 0xffff 0xffff 0 0 0 0x1) 1234 0 0].
     scope_of a = PrivateScope"
  by code_simp

lemma scope_ipv6_global:
  "\<forall>a \<in> set [SockV6 (Ipv6 0x2606 0x4700 0x4700 0 0 0 0 0x1111) 1234 0 0,
      SockV6 (Ipv6 0xfec0 0 0 0 0 0 0 0x1) 1234 0 0,
      SockV6 (Ipv6 0xfe00 0 0 0 0 0 0 0x1) 1234 0 0].
     scope_of a = GlobalUnicast"
  by code_simp

lemma scope_folded:
  "\<forall>a \<in> set [SockV6 (Ipv6 0 0 0 0 0 0xffff 0x7f00 0x1) 1234 0 0,
      SockV6 (Ipv6 0 0 0 0 0 0xffff 0 0) 1234 0 0,
      SockV6 (Ipv6 0 0 0 0 0 0xffff 0xe000 0x1) 1234 0 0,
      SockV6 (Ipv6 0 0 0 0 0 0xffff 0xc000 0x201) 1234 0 0,
      SockV6 (Ipv6 0 0 0 0 0 0xffff 0xffff 0xffff) 1234 0 0,
      SockV6 (Ipv6 0 0 0 0 0 0xffff 0xa9fe 0xa9fe) 1234 0 0,
      SockV6 (Ipv6 0 0 0 0 0 0 0x7f00 0x1) 1234 0 0,
      SockV6 (Ipv6 0 0 0 0 0 0 0xa9fe 0xa9fe) 1234 0 0].
     scope_of a = NeverDialable"
  by code_simp

lemma scope_port_zero:
  "\<forall>a \<in> set [SockV4 (Ipv4 1 1 1 1) 0,
      SockV6 (Ipv6 0x2606 0x4700 0x4700 0 0 0 0 0x1111) 0 0 0,
      SockV4 (Ipv4 10 0 0 1) 0].
     scope_of a = NeverDialable"
  by code_simp

section \<open>Agreement\<close>

abbreviation global_v4 :: "u16 \<Rightarrow> socket_addr" where
  "global_v4 port \<equiv> SockV4 (Ipv4 1 1 1 1) port"

abbreviation peer_at :: "u8 \<Rightarrow> u8 \<Rightarrow> u8 \<Rightarrow> u8 \<Rightarrow> socket_addr \<Rightarrow> reading" where
  "peer_at a b c d seen \<equiv> reading_new (render (peer (IpV4 (Ipv4 a b c d)))) seen"

lemma two_peers_in_one_slash16:
  "ipv4 (establish [peer_at 203 0 113 9 (global_v4 51000), peer_at 203 0 113 200 (global_v4 52000)]) = Insufficient 1 True"
  by code_simp

lemma two_peer_classes:
  "ipv4 (establish [peer_at 203 0 113 1 (global_v4 1), peer_at 198 51 100 1 (global_v4 2)]) = Insufficient 2 True"
  by code_simp

lemma three_peer_classes:
  "ipv4 (establish [peer_at 203 0 113 1 (global_v4 1), peer_at 198 51 100 1 (global_v4 2), peer_at 192 0 2 1 (global_v4 3)])
   = Established (IpV4 (Ipv4 1 1 1 1)) 3"
  by code_simp

lemma relay_and_peer:
  "ipv4 (establish [reading_new (render (relay ''relay.dig.net'')) (global_v4 1), peer_at 203 0 113 1 (global_v4 2)])
   = Established (IpV4 (Ipv4 1 1 1 1)) 2"
  by code_simp

lemma dissenting_public:
  "ipv4 (establish [peer_at 203 0 113 1 (global_v4 1), peer_at 198 51 100 1 (global_v4 2),
      reading_new (render (public ''stun.l.google.com'')) (SockV4 (Ipv4 203 0 113 7) 3)])
   = Disagreement [IpV4 (Ipv4 1 1 1 1), IpV4 (Ipv4 203 0 113 7)]"
  by code_simp

lemma unanimous_private:
  "ipv4 (establish [reading_new (render (relay ''r1.dig.net'')) (SockV4 (Ipv4 172 16 5 5) 1),
      reading_new (render (public ''stun.l.google.com'')) (SockV4 (Ipv4 172 16 5 5) 2), peer_at 203 0 113 1 (SockV4 (Ipv4 172 16 5 5) 3)])
   = NotGlobal (IpV4 (Ipv4 172 16 5 5)) PrivateScope"
  by code_simp

lemma mapped_reading_is_ipv4:
  "establish [reading_new (render (relay ''r1.dig.net'')) (SockV6 (Ipv6 0 0 0 0 0 0xffff 0x101 0x101) 9444 0 0),
      reading_new (render (public ''stun.l.google.com'')) (global_v4 1)]
   = \<lparr>ipv6 = NoReadings, ipv4 = Established (IpV4 (Ipv4 1 1 1 1)) 2\<rparr>"
  by code_simp

lemma unknown_classes:
  "\<forall>s \<in> set [''bogus:thing'', '''', ''peer:v4:not-a-number.5'']. source_class_parse s = None"
  by code_simp

lemma peer_slash32:
  "render (peer (IpV6 (Ipv6 0x2606 0x4700 0x4700 0 0 0 0 0x1111))) = ''peer:v6:2606:4700''
   \<and> peer (IpV6 (Ipv6 0x2606 0x4700 0xffff 0 0 0 0 0x2222)) = peer (IpV6 (Ipv6 0x2606 0x4700 0x4700 0 0 0 0 0x1111))"
  by (simp add: peer_def show_hex4_def from_digit_def char_of_def bit_0)

section \<open>Budgets\<close>

abbreviation ask :: "string \<Rightarrow> u8 \<Rightarrow> u64 \<Rightarrow> call" where
  "ask session a now \<equiv> (std_orders, session, IpV4 (Ipv4 a a a a), now)"

lemmas limiter_run = allow_def limiter_new_def bucket_for_def bucket_at_def peek_def spend_def bucket_new_def
  saturating_pred_def MAX_TRACKED_SOURCES_def SESSION_SOURCE_WINDOW_MS_def GLOBAL_WINDOW_MS_def Let_def

lemma session_budget_refuses:
  "snd (run_calls allow_call (limiter_new 2 1000) [ask ''peer-a'' 1 0, ask ''peer-a'' 2 0, ask ''peer-a'' 3 0]) = [True, True, False]"
  by (simp add: limiter_run)

lemma source_budget_refuses:
  "snd (run_calls allow_call (limiter_new 2 1000) [ask ''peer-a'' 9 0, ask ''peer-b'' 9 0, ask ''peer-c'' 9 0]) = [True, True, False]"
  by (simp add: limiter_run)

lemma global_budget_refuses:
  "snd (run_calls allow_call (limiter_new 1000 2) [ask ''peer-a'' 1 0, ask ''peer-b'' 2 0, ask ''peer-c'' 3 0]) = [True, True, False]"
  by (simp add: limiter_run)

lemma refusal_keeps_global_token:
  "snd (run_calls allow_call (limiter_new 1 2) [ask ''peer-a'' 1 0, ask ''peer-a'' 1 0, ask ''peer-b'' 2 0]) = [True, False, True]"
  by (simp add: limiter_run)

lemma new_window_refills:
  "snd (run_calls allow_call (limiter_new 1 1) [ask ''peer-a'' 1 0, ask ''peer-a'' 1 0, ask ''peer-a'' 1 61000]) = [True, False, True]"
  by (simp add: limiter_run)

end
