(* ===== verification/Spec2Isabelle.thy ===== *)
theory Spec2Isabelle
  imports DualStack Eviction Flood LimitedNetwork PlainNetwork Replicas Totality Conformance
begin

text \<open>
  Verification of dig-stun: how a DIG node learns, and believes, its own public address.

  \<^bold>\<open>The program.\<close> The crate has five parts. A STUN codec (\<open>src/codec.rs\<close>) encodes and parses RFC
  5389 Binding messages; a client (\<open>src/client.rs\<close>, \<open>src/transaction_id.rs\<close>) runs one query over a
  UDP socket; an address classifier (\<open>src/scope.rs\<close>) says what may be dialled or advertised; an
  observation responder (\<open>src/observe.rs\<close>) tells a peer the address it is seen from, under a rate
  limiter; an agreement rule (\<open>src/establish.rs\<close>) turns readings from independent sources into a
  verdict per family. On top sits the signed credential (\<open>src/credential/\<close>): a server challenges a
  request with a stateless nonce and answers one whose signature over it verifies. They meet in three
  places: every address goes through the fold and the classifier, every message through the codec's
  header and attribute framing, and the credential's client and server through each other.

  \<^bold>\<open>The theories\<close>, in the order they build on each other.
  \<^item> Prelude: machine integers as words, byte strings, checked indexing and slicing (a Rust panic is
    \<open>None\<close>), big-endian conversions, strings as UTF-8 bytes, and the encoder/decoder interface
    \<open>partial_codec\<close>, interpreted by the request, the success response, base64url and the source
    classes.
  \<^item> NetAddr: \<open>std::net\<close> addresses, their octets, order and predicates, as the code uses them.
  \<^item> Scope: \<open>scope.rs\<close> line by line; the tables are shown equal to the CIDR blocks of SPEC.md 5.3.
    The locale \<open>scope_table\<close> is what clients of the classifier rely on.
  \<^item> Tlv: the header and attribute framing, the writers of \<open>credential/wire.rs\<close>, a reference
    decomposition \<open>tlvs\<close>, and the locale \<open>tlv_loop\<close>, the contract of an attribute walk: it never
    panics and equals a fold over the decomposition. All three walks of the crate interpret it.
  \<^item> Codec: \<open>codec.rs\<close>; parsers total and characterised on every byte string, round trip, sizes.
  \<^item> Client: \<open>transaction_id.rs\<close> and \<open>client.rs\<close>. A run consumes one poll per turn (clock reading
    and outcome of the wait) and yields a trace of sends and timers with \<open>Waiting\<close>, \<open>Panicked\<close> or
    \<open>Done\<close>; all claims quantify over every sequence of polls.
  \<^item> Observe: \<open>observe.rs\<close>; the limiter as explicit state, hash maps as association lists with an
    arbitrary visiting order, reachability from \<open>new\<close> by \<open>allow\<close>. The locale \<open>bucket_store\<close> is the
    contract of the bounded map and \<open>window_budget\<close> that of one rate-limit dimension, interpreted for
    the global, the session and the source budget.
  \<^item> Establish: \<open>establish.rs\<close>, with the standard library's string splitting and integer parsing it
    uses; the sort-and-deduplicate code refines a function of the set of readings.
  \<^item> Wire, Nonce, Signature, Request, Response, Decide, SignedClient: the files of
    \<open>src/credential/\<close>, one theory each.
  \<^item> Server: the order of SPEC.md 14.5 as a composition of the crate's functions, through the reference
    flow of \<open>tests/credential.rs\<close>; the end-to-end statements on both clients.
  \<^item> LimiterSpec: what the limiter promises, as a log of grants that is counted; the locale
    \<open>call_simulation\<close> lifts agreement on one call to runs, and is interpreted for the code's limiter
    against that log. The last lemmas show what its side conditions exclude: eviction, and a clock
    that does not run forwards.
  \<^item> Eviction: the narrow budgets when the maps are full. The locale \<open>refilled_budget\<close>, a budget some calls
    fill up again, is interpreted for sessions and for sources, with evictions as the refills.
  \<^item> LimitedServer: the server behind the limiter, SPEC.md 14.5 in full, with the bound on the work a
    second of datagrams can cause.
  \<^item> Isolation: how many abusers it takes to drain the global budget, where an eviction counts as one more. The locale \<open>exact_budget\<close> extends
    \<open>window_budget\<close> by the converse law, that nothing but a grant is paid for.
  \<^item> Flood: the handshake through the limited server amid any other traffic. \<open>within_budget\<close> says what the
    traffic before a datagram must have left; refinement, isolation and handshake then give the answer.
  \<^item> Replicas: servers with different secrets behind one address.
  \<^item> DualStack: every component but the two clients looks at an endpoint only through the fold; the collection
    \<open>transparent\<close> has one lemma for each. What the clients do instead is part of the statement.
  \<^item> Totality: the panic-freedom of all that reads the network, in one statement.
  \<^item> SignedStep: the signed exchange one turn at a time, equal to the loop of SignedClient on every run,
    and when it ends.
  \<^item> Network: client turns, server and attacker interleaved as a step relation over a \<open>world\<close>; the locale
    \<open>net_invariant\<close> is the invariant rule. An off-path and an on-path attacker are two instances of
    what may be served and delivered; the client of every reachable world is a run of the code's exchange.
  \<^item> LimitedNetwork: the same network with the limited server in it. Its steps are simulated by steps of
    Network, so both attackers are as powerless here, and what a second can cost is bounded over a run.
  \<^item> PlainNetwork: what the plain client is safe from when its transaction id is not guessed.
  \<^item> Agreement: peers answer through \<open>observe\<close>, the node settles their readings with \<open>establish\<close>.
  \<^item> Messages: the texts of the three error types.
  \<^item> Conformance: the definitions evaluated on the fixed inputs of the repository's tests.

  \<^bold>\<open>What the lemmas show.\<close> Parsers: no panic on any input, the result on every branch, in the documented
  order of errors. Encoders: exact sizes, and what the peer's parser reads back. Limiter: bounded memory,
  a bound on grants per window in each dimension, all-or-nothing charging in every state, eviction of the least
  \<open>last_seen_ms\<close>, equality with the counted log while nothing is evicted, and one more capacity per
  eviction of a key where something is.
  Agreement: exactly when an address is established, dependence on the set of claims only, and that two
  peer prefixes never suffice. Nonce: exactly when it is fresh, its life of one to two minutes, and that
  moving it between two sources needs the MACs of those two to collide. Credential: exactly which requests are signed, when
  verification accepts, that it happens once and late, at most three datagrams under one deadline, that
  it ends, and that client and server meet end to end. Network: an off-path attacker cannot make the
  client believe an address the server did not see it at; against an on-path one, an answer to a
  request under the client's key proves possession, return routability and freshness; the limiter in
  front of the server changes none of this. Composition:
  honest peers settle the node's address and one of them stops a lie; verifications are bounded by
  the global budget, which a few abusers cannot drain, so that an honest client is answered amid a flood;
  the two spellings of an IPv4 endpoint are told apart by the clients' comparison of the sender with their
  server and by nothing else; and two replicas that share no secret fail the client they share.

  \<^bold>\<open>Arguments standing for other code.\<close> \<open>hmac\<close> is \<open>ring::hmac\<close>, with the hypothesis
  \<open>hmac_sha256_output\<close> that its output has 32 bytes; \<open>ecdsa\<close> is \<open>ring\<close>'s verifier; a
  \<open>stun_signer\<close> is the consumer's key object; \<open>csprng\<close> is the system's random source, which may
  fail; sockets and clocks are the polls; \<open>label\<close> is the session key a UDP deployment chooses;
  \<open>debug\<close> says whether debug assertions are compiled in.

  \<^bold>\<open>Attackers.\<close> Nothing is assumed of \<open>hmac\<close> and \<open>ecdsa\<close> beyond the output length; what a forger cannot
  do restricts the datagrams of the step relation instead (\<open>foreign\<close>, \<open>unforged\<close>, \<open>mac_unforged\<close> in
  Network), and a concrete run shows that the restrictions leave the exchange possible.

  \<^bold>\<open>Bounds.\<close> No fuel is used: the attribute walks recurse on the distance to the end of the area, which
  each turn lowers by at least four, and the clients on the list of polls. Lengths and offsets
  (\<open>usize\<close>) are natural numbers: they stay below 20 + 65535 + 65539, far from any wrap.

  \<^bold>\<open>Not modelled.\<close> The async runtime and sockets themselves, \<open>lib.rs\<close> and
  \<open>credential.rs\<close> (re-exports), logging, and timing (the constant-time comparison is modelled for its
  result). Readings of the clock are natural numbers without a greatest one, so the panic of
  \<open>Instant::now() + timeout\<close> in the two clients, where the caller's timeout is beyond what the platform's clock
  can represent, has no counterpart; nothing the network sends can cause it.
\<close>

end
